theory Spec2Isabelle
  imports Complex_Main
begin

section \<open>Numbers and errors\<close>

text \<open>
  The simulator \<^verbatim>\<open>src/midi_converter/tesla_wav_simulator.py\<close> computes on Python
  \<open>int\<close>s (unbounded, type \<open>int\<close> here) and on Python \<open>float\<close>s. Floats are
  embedded as \<open>real\<close>: every arithmetic operation is the exact one, so rounding
  error of the binary64 format is outside this model. The concrete inputs used below
  are chosen so that the decisive comparisons are far from any rounding boundary, and
  the statements about the invariants of a timer and about the flip of its output are
  made for times and tick counts at which the binary64 sums and quotients of the code
  round to the same integers as the exact ones: times up to \<open>2^20\<close> seconds, where
  half a unit in the last place of a time is less than a hundredth of a tick of the
  fastest prescaler, and steps of at most \<open>2^52\<close> ticks, where the counter and the
  period are integers that binary64 holds exactly and their quotient truncates to the
  exact one.

  The finite range of the format is part of the model where \<^verbatim>\<open>set_note\<close> meets it:
  the conversion of an \<open>int\<close> to a float and the power \<^verbatim>\<open>2.0 ** x\<close> raise
  \<^verbatim>\<open>OverflowError\<close>. A float product or quotient beyond the range is infinite in
  the code and a large real here.
\<close>

datatype error =
  ZeroDivisionError | StopIteration | IndexError | TypeError | StructError | OverflowError

text \<open>\<^verbatim>\<open>round(x)\<close> on a float returns the nearest integer, ties to the even one.\<close>

definition py_round :: "real \<Rightarrow> int" where
  "py_round x =
     (let f = \<lfloor>x\<rfloor>; d = x - of_int f
      in if d < 1 / 2 then f else if 1 / 2 < d then f + 1 else if even f then f else f + 1)"

text \<open>\<^verbatim>\<open>int(x)\<close> on a float truncates toward zero.\<close>

definition py_int :: "real \<Rightarrow> int" where
  "py_int x = (if 0 \<le> x then \<lfloor>x\<rfloor> else - \<lfloor>- x\<rfloor>)"

section \<open>Module constants\<close>

definition COIL_FREQ :: real where "COIL_FREQ = 250000"
definition HALF_CYCLE_LENGTH :: real where "HALF_CYCLE_LENGTH = 1 / (2 * COIL_FREQ)"
definition MAX_HALF_CYCLES :: int where "MAX_HALF_CYCLES = 10"
definition MAX_PULSE_LENGTH :: real where
  "MAX_PULSE_LENGTH = of_int MAX_HALF_CYCLES * HALF_CYCLE_LENGTH"

definition SAMPLE_RATE :: int where "SAMPLE_RATE = 44100"
definition PULSE_INIT :: real where "PULSE_INIT = 0"
definition PULSE_MAX :: real where "PULSE_MAX = 32767"
definition PULSE_STEP :: real where "PULSE_STEP = PULSE_MAX / of_int MAX_HALF_CYCLES"
definition PULSE_SLOPE :: real where "PULSE_SLOPE = PULSE_STEP / HALF_CYCLE_LENGTH"

definition MIDI_BASE_FREQ :: real where "MIDI_BASE_FREQ = 440"
definition MIDI_BASE_NOTE :: int where "MIDI_BASE_NOTE = 69"

text \<open>
  An \<open>int\<close> is converted to the nearest float, and the conversion raises
  \<^verbatim>\<open>OverflowError\<close> when that would be \<open>2^1024\<close> or more in absolute value: from
  \<open>2^1024 - 2^970\<close> on, half way between the largest float and \<open>2^1024\<close>.
\<close>

definition int_too_large :: "int \<Rightarrow> bool" where
  "int_too_large n \<longleftrightarrow> 2 ^ 1024 - 2 ^ 970 \<le> \<bar>n\<bar>"

text \<open>
  \<^verbatim>\<open>get_midi_freq\<close>: \<^verbatim>\<open>float(note - MIDI_BASE_NOTE)\<close> raises on an \<open>int\<close> that is
  too large, and \<^verbatim>\<open>2.0 ** x\<close> raises \<^verbatim>\<open>OverflowError\<close> when the power is not below
  \<open>2^1024\<close>, that is from \<open>x = 1024\<close> on (pitch 12357). A power too small for the
  format is no error: the code goes on with a frequency below every minimal
  frequency, as the model does.
\<close>

definition get_midi_freq :: "int \<Rightarrow> error + real" where
  "get_midi_freq note =
     (if int_too_large (note - MIDI_BASE_NOTE) then Inl OverflowError
      else
        let x = of_int (note - MIDI_BASE_NOTE) / 12
        in if 1024 \<le> x then Inl OverflowError
           else Inr (MIDI_BASE_FREQ * (2 powr x)))"

definition ARDUINO_FREQ :: real where "ARDUINO_FREQ = 16000000"

section \<open>The timer: class ArduinoTimerSim\<close>

text \<open>
  The fields of the class, in the order \<^verbatim>\<open>__init__\<close> assigns them. \<open>max\<close> and
  \<open>top\<close> are HOL constants, so these two fields carry a suffix.
\<close>

record timer =
  max_c :: int
  prescale_values :: "int list"
  prescale :: int
  top_c :: int
  min_freq :: real
  duty :: int
  current :: int
  current_t :: real

text \<open>
  \<^verbatim>\<open>__init__\<close>: \<^verbatim>\<open>prescale_values[-1]\<close> raises on the empty list, and the float
  division raises when the product is zero.
\<close>

definition ArduinoTimerSim_init :: "int \<Rightarrow> int list \<Rightarrow> error + timer" where
  "ArduinoTimerSim_init mx pvs =
     (if pvs = [] then Inl IndexError
      else if last pvs * mx = 0 then Inl ZeroDivisionError
      else Inr \<lparr> max_c = mx, prescale_values = pvs, prescale = 1, top_c = mx,
                 min_freq = ARDUINO_FREQ / of_int (last pvs * mx),
                 duty = 0, current = 0, current_t = 0 \<rparr>)"

text \<open>
  The generator expression of \<^verbatim>\<open>set_note\<close>, consumed by \<^verbatim>\<open>next\<close>: the first
  candidate that passes the test; \<^verbatim>\<open>StopIteration\<close> when there is none. The test
  divides by \<^verbatim>\<open>self.max * v\<close>.
\<close>

fun next_prescale :: "int \<Rightarrow> real \<Rightarrow> int list \<Rightarrow> error + int" where
  "next_prescale mx f [] = Inl StopIteration"
| "next_prescale mx f (v # vs) =
     (if mx * v = 0 then Inl ZeroDivisionError
      else if ARDUINO_FREQ / of_int (mx * v) < f then Inr v
      else next_prescale mx f vs)"

text \<open>
  \<^verbatim>\<open>set_note\<close>. The product \<^verbatim>\<open>min(volume, MAX_HALF_CYCLES) * HALF_CYCLE_LENGTH\<close>
  converts its first factor to a float. The intensity of the data model is not
  negative; for an intensity below \<open>- 10^307\<close> the code rounds an infinite duty,
  which raises as well and which the model does not follow.
\<close>

definition set_note :: "timer \<Rightarrow> int \<Rightarrow> int \<Rightarrow> error + timer" where
  "set_note tm note volume =
     (case get_midi_freq note of
        Inl e \<Rightarrow> Inl e
      | Inr tgt_freq \<Rightarrow>
          if tgt_freq < min_freq tm then Inr tm
          else case next_prescale (max_c tm) tgt_freq (prescale_values tm) of
            Inl e \<Rightarrow> Inl e
          | Inr p \<Rightarrow>
              if of_int p * tgt_freq = 0 then Inl ZeroDivisionError
              else
                let tp = py_round (ARDUINO_FREQ / (of_int p * tgt_freq));
                    cur = (if current tm \<ge> tp then 0 else current tm)
                in if int_too_large (min volume MAX_HALF_CYCLES) then Inl OverflowError
                   else
                     let tgt_pulse = of_int (min volume MAX_HALF_CYCLES) * HALF_CYCLE_LENGTH;
                         d = py_round (tgt_pulse * ARDUINO_FREQ / of_int p)
                     in Inr (tm \<lparr> prescale := p, top_c := tp, current := cur,
                                   duty := (if d = 0 then 1 else d) \<rparr>))"

definition set_off :: "timer \<Rightarrow> timer" where
  "set_off tm = tm \<lparr> duty := 0 \<rparr>"

definition current_state :: "timer \<Rightarrow> bool" where
  "current_state tm \<longleftrightarrow> current tm < duty tm"

definition next_change :: "timer \<Rightarrow> real" where
  "next_change tm =
     (if current_state tm
      then current_t tm + of_int (duty tm - current tm) * of_int (prescale tm) / ARDUINO_FREQ
      else current_t tm + of_int (top_c tm - current tm) * of_int (prescale tm) / ARDUINO_FREQ)"

text \<open>
  \<^verbatim>\<open>update\<close> has no test on \<open>t\<close>. Its two divisions raise on a zero prescaler and
  on a zero \<open>top\<close>; \<^verbatim>\<open>int(self.current / self.top)\<close> is a float division followed
  by truncation toward zero.
\<close>

definition update :: "timer \<Rightarrow> real \<Rightarrow> error + timer" where
  "update tm t =
     (if prescale tm = 0 then Inl ZeroDivisionError
      else
        let ticks = py_round ((t - current_t tm) * ARDUINO_FREQ / of_int (prescale tm));
            cur = current tm + ticks
        in if top_c tm = 0 then Inl ZeroDivisionError
           else Inr (tm \<lparr> current := cur - top_c tm * py_int (of_int cur / of_int (top_c tm)),
                          current_t := t \<rparr>))"

text \<open>The two module-level timers.\<close>

definition Timer1 :: timer where
  "Timer1 = projr (ArduinoTimerSim_init (2 ^ 16) [1, 8, 64, 256, 1024])"

definition Timer2 :: timer where
  "Timer2 = projr (ArduinoTimerSim_init (2 ^ 8) [1, 8, 32, 64, 128, 256, 1024])"

section \<open>The logic signal: generate_logic_signal\<close>

text \<open>
  Modelled from the spec: the command objects that \<^verbatim>\<open>get_midi_commands\<close> of the
  module \<^verbatim>\<open>arduino_midi\<close> returns; that module is not part of the sources at
  hand. The fields are the attributes \<^verbatim>\<open>generate_logic_signal\<close> reads (\<open>type\<close>,
  \<open>time\<close>, \<open>tempo\<close>, \<open>timer\<close>, \<open>note\<close>, \<open>volume\<close>; three of them carry a
  suffix, their names being taken in Isabelle), with the types that
  the data model gives a note event: a tick delta, a tempo in microseconds per
  quarter note, a timer selector, an integer pitch and an integer intensity. The
  generator takes the command list and the \<^verbatim>\<open>ticks_per_beat\<close> of the file as its
  inputs.
\<close>

record cmd =
  type_c :: string
  time :: int
  tempo :: int
  timer_c :: int
  note_c :: int
  volume :: int

text \<open>
  The variables of one call of \<^verbatim>\<open>generate_logic_signal\<close>, together with the two
  module-level timer objects it mutates (\<open>timer1\<close>, \<open>timer2\<close>: the current
  values of \<^verbatim>\<open>Timer1\<close> and \<^verbatim>\<open>Timer2\<close>). The local variables \<^verbatim>\<open>current_state\<close>
  and \<^verbatim>\<open>current_t\<close> share their names with a method and a field of the timer and
  carry a suffix here.
\<close>

record gen =
  timer1 :: timer
  timer2 :: timer
  current_state_g :: bool
  current_pulse_start :: real
  pulses :: "(real \<times> real) list"
  current_t_g :: real
  current_tempo :: int
  last_cmd_t :: real

definition update_state :: "gen \<Rightarrow> real \<Rightarrow> error + gen" where
  "update_state g t =
     (case update (timer1 g) t of
        Inl e \<Rightarrow> Inl e
      | Inr t1 \<Rightarrow>
          (case update (timer2 g) t of
             Inl e \<Rightarrow> Inl e
           | Inr t2 \<Rightarrow>
               let g1 = g \<lparr> timer1 := t1, timer2 := t2, current_t_g := t \<rparr>;
                   new_state = (current_state t1 \<or> current_state t2)
               in Inr (if new_state \<noteq> current_state_g g1
                       then (if new_state
                             then g1 \<lparr> current_state_g := new_state, current_pulse_start := t \<rparr>
                             else g1 \<lparr> current_state_g := new_state,
                                       pulses := pulses g1 @
                                         [(current_pulse_start g1,
                                           min (current_pulse_start g1 + MAX_PULSE_LENGTH) t)] \<rparr>)
                       else g1)))"

text \<open>
  The inner loop \<^verbatim>\<open>while current_t < cmd_t\<close>. Nothing in the code bounds the number
  of its rounds, so the model returns an \<open>option\<close>: \<open>None\<close> is a loop that does
  not end.
\<close>

partial_function (option) advance :: "gen \<Rightarrow> real \<Rightarrow> (error + gen) option" where
  "advance g cmd_t =
     (if current_t_g g < cmd_t
      then (case update_state g
                   (if min (next_change (timer1 g)) (next_change (timer2 g)) < cmd_t
                    then min (next_change (timer1 g)) (next_change (timer2 g))
                    else cmd_t) of
              Inl e \<Rightarrow> Some (Inl e)
            | Inr g' \<Rightarrow> advance g' cmd_t)
      else Some (Inr g))"

text \<open>
  \<^verbatim>\<open>ArduinoTimers[cmd.timer - 1]\<close>: indexing a list of two objects, where Python
  also accepts the negative indices \<open>-1\<close> and \<open>-2\<close>.
\<close>

definition ArduinoTimers_index :: "int \<Rightarrow> error + nat" where
  "ArduinoTimers_index i =
     (if 0 \<le> i \<and> i < 2 then Inr (nat i)
      else if - 2 \<le> i \<and> i < 0 then Inr (nat (i + 2))
      else Inl IndexError)"

text \<open>The \<^verbatim>\<open>if\<close>/\<^verbatim>\<open>elif\<close> chain on the command type.\<close>

definition apply_cmd :: "gen \<Rightarrow> cmd \<Rightarrow> error + gen" where
  "apply_cmd g c =
     (if type_c c \<in> set [''begin_program'', ''set_tempo'']
      then Inr (g \<lparr> current_tempo := tempo c \<rparr>)
      else if type_c c = ''note_off''
      then (case ArduinoTimers_index (timer_c c - 1) of
              Inl e \<Rightarrow> Inl e
            | Inr k \<Rightarrow> Inr (if k = 0 then g \<lparr> timer1 := set_off (timer1 g) \<rparr>
                             else g \<lparr> timer2 := set_off (timer2 g) \<rparr>))
      else if type_c c = ''both_off''
      then Inr (g \<lparr> timer1 := set_off (timer1 g), timer2 := set_off (timer2 g) \<rparr>)
      else if type_c c = ''note_on''
      then (case ArduinoTimers_index (timer_c c - 1) of
              Inl e \<Rightarrow> Inl e
            | Inr k \<Rightarrow>
                if k = 0
                then (case set_note (timer1 g) (note_c c) (volume c) of
                        Inl e \<Rightarrow> Inl e | Inr t1 \<Rightarrow> Inr (g \<lparr> timer1 := t1 \<rparr>))
                else (case set_note (timer2 g) (note_c c) (volume c) of
                        Inl e \<Rightarrow> Inl e | Inr t2 \<Rightarrow> Inr (g \<lparr> timer2 := t2 \<rparr>)))
      else Inr g)"

text \<open>One round of the \<^verbatim>\<open>for cmd in cmds\<close> loop.\<close>

definition cmd_step :: "int \<Rightarrow> gen \<Rightarrow> cmd \<Rightarrow> (error + gen) option" where
  "cmd_step ticks_per_beat g c =
     (if 1000000 * (of_int ticks_per_beat :: real) = 0 then Some (Inl ZeroDivisionError)
      else
        let cmd_t = last_cmd_t g +
                    of_int (time c * current_tempo g) / (1000000 * of_int ticks_per_beat)
        in case advance (g \<lparr> last_cmd_t := cmd_t \<rparr>) cmd_t of
             None \<Rightarrow> None
           | Some (Inl e) \<Rightarrow> Some (Inl e)
           | Some (Inr g1) \<Rightarrow>
               (case apply_cmd g1 c of
                  Inl e \<Rightarrow> Some (Inl e)
                | Inr g2 \<Rightarrow> Some (update_state g2 cmd_t)))"

fun run_cmds :: "int \<Rightarrow> gen \<Rightarrow> cmd list \<Rightarrow> (error + gen) option" where
  "run_cmds ticks_per_beat g [] = Some (Inr g)"
| "run_cmds ticks_per_beat g (c # cs) =
     (case cmd_step ticks_per_beat g c of
        None \<Rightarrow> None
      | Some (Inl e) \<Rightarrow> Some (Inl e)
      | Some (Inr g') \<Rightarrow> run_cmds ticks_per_beat g' cs)"

text \<open>
  The state in which a call starts: its locals are initialised, the two timers are
  whatever the module-level objects hold at that moment.
\<close>

definition gen_init :: "timer \<times> timer \<Rightarrow> gen" where
  "gen_init tms =
     \<lparr> timer1 = fst tms, timer2 = snd tms, current_state_g = True,
       current_pulse_start = 0, pulses = [], current_t_g = 0, current_tempo = 0,
       last_cmd_t = 0 \<rparr>"

text \<open>
  The result of a call: the pulse list it returns and the timers it leaves behind. A
  call that raises is \<open>Inl\<close>; what the timers hold after an exception is not modelled.
\<close>

definition generate_logic_signal ::
  "cmd list \<Rightarrow> int \<Rightarrow> timer \<times> timer \<Rightarrow> (error + (real \<times> real) list \<times> (timer \<times> timer)) option" where
  "generate_logic_signal cmds ticks_per_beat tms =
     (case run_cmds ticks_per_beat (gen_init tms) cmds of
        None \<Rightarrow> None
      | Some (Inl e) \<Rightarrow> Some (Inl e)
      | Some (Inr g) \<Rightarrow> Some (Inr (pulses g, (timer1 g, timer2 g))))"

section \<open>The envelope and the sampling loop: envelope, generate_wav\<close>

definition ENERGY_TRANSFER_HALF_CYCLES :: int where "ENERGY_TRANSFER_HALF_CYCLES = 8"
definition ENERGY_TRANSFER_TIME :: real where
  "ENERGY_TRANSFER_TIME = of_int ENERGY_TRANSFER_HALF_CYCLES * HALF_CYCLE_LENGTH"
definition ENERGY_TRANSFER_SPARK_DECAY :: real where "ENERGY_TRANSFER_SPARK_DECAY = 1 / 2"
definition ENERGY_TRANSFER_EXPONENTIAL_DECAY_START :: real where
  "ENERGY_TRANSFER_EXPONENTIAL_DECAY_START = 1 / 10"

text \<open>
  \<^verbatim>\<open>envelope\<close> has an \<^verbatim>\<open>if\<close> and an \<^verbatim>\<open>elif\<close> and no \<^verbatim>\<open>else\<close>: when neither
  test holds the function falls off its end and returns \<^verbatim>\<open>None\<close>, which is
  \<open>Inr None\<close> here. In the first branch the result of the recursive call is
  multiplied by a float, which raises \<^verbatim>\<open>TypeError\<close> when that result is \<^verbatim>\<open>None\<close>.
\<close>

function envelope :: "real \<Rightarrow> real \<Rightarrow> real \<Rightarrow> error + int option" where
  "envelope sample_t pulse_start pulse_end =
     (if pulse_end < sample_t
      then (case envelope pulse_end pulse_start pulse_end of
              Inl e \<Rightarrow> Inl e
            | Inr None \<Rightarrow> Inl TypeError
            | Inr (Some pulse_volume) \<Rightarrow>
                let transfer_cycles = (sample_t - pulse_end) / ENERGY_TRANSFER_TIME;
                    decay_factor = ENERGY_TRANSFER_SPARK_DECAY powr transfer_cycles;
                    cos_factor =
                      (if decay_factor < ENERGY_TRANSFER_EXPONENTIAL_DECAY_START
                       then \<bar>cos (pi * transfer_cycles / 2)\<bar> else 1)
                in Inr (Some (py_int (of_int pulse_volume * cos_factor * decay_factor))))
      else if pulse_start < sample_t
      then Inr (Some (py_int (min (PULSE_INIT + PULSE_SLOPE * (sample_t - pulse_start))
                                  PULSE_MAX)))
      else Inr None)"
  by pat_completeness auto
termination
  by (relation "measure (\<lambda>(t, s, e). if e < t then 1 else 0)") auto

declare envelope.simps [simp del]

definition FIRST_PULSE_ON_TIME :: real where "FIRST_PULSE_ON_TIME = 1"
definition LAST_PULSE_OFF_TIME :: real where "LAST_PULSE_OFF_TIME = 1"

text \<open>The inner \<^verbatim>\<open>while\<close> of the sampling loop, which moves \<^verbatim>\<open>pulse_idx\<close> on.\<close>

function find_pulse :: "(real \<times> real) list \<Rightarrow> nat \<Rightarrow> real \<Rightarrow> nat" where
  "find_pulse logic_pulses pulse_idx sample_t =
     (if pulse_idx + 1 < length logic_pulses \<and> snd (logic_pulses ! pulse_idx) < sample_t
      then find_pulse logic_pulses (pulse_idx + 1) sample_t
      else pulse_idx)"
  by pat_completeness auto
termination
  by (relation "measure (\<lambda>(ps, i, t). length ps - i)") auto

declare find_pulse.simps [simp del]

text \<open>The volume of one sample: the \<^verbatim>\<open>if\<close> on \<^verbatim>\<open>curr_pulse\<close> in the loop body.\<close>

definition sample_volume :: "(real \<times> real) list \<Rightarrow> nat \<Rightarrow> real \<Rightarrow> error + int option" where
  "sample_volume logic_pulses pulse_idx sample_t =
     (if length logic_pulses \<le> pulse_idx then Inl IndexError
      else
        let curr_pulse = logic_pulses ! pulse_idx
        in if fst curr_pulse > sample_t
           then (if pulse_idx > 0
                 then envelope sample_t (fst (logic_pulses ! (pulse_idx - 1)))
                                        (snd (logic_pulses ! (pulse_idx - 1)))
                 else Inr (Some 0))
           else envelope sample_t (fst curr_pulse) (snd curr_pulse))"

text \<open>
  \<^verbatim>\<open>struct.pack('<h', volume)\<close> accepts the integers of a signed 16-bit short and
  raises \<^verbatim>\<open>struct.error\<close> on anything else, \<^verbatim>\<open>None\<close> included.
\<close>

definition pack_h :: "int option \<Rightarrow> error + int" where
  "pack_h v =
     (case v of
        None \<Rightarrow> Inl StructError
      | Some n \<Rightarrow> if - 32768 \<le> n \<and> n \<le> 32767 then Inr n else Inl StructError)"

text \<open>
  The outer \<^verbatim>\<open>while sample_t <= last_t\<close>; the frames written to the file are
  collected in a list. The sample times of the model are the exact sums
  \<open>- 1 + k / 44100\<close>. The code adds the binary64 quotient \<^verbatim>\<open>1.0 / SAMPLE_RATE\<close>
  to a binary64 sum, so its sample times are these up to rounding: a sample that
  falls on the boundary of a pulse in the model can fall beside it in the code.
\<close>

function sample_loop ::
  "(real \<times> real) list \<Rightarrow> real \<Rightarrow> nat \<Rightarrow> real \<Rightarrow> int list \<Rightarrow> error + int list" where
  "sample_loop logic_pulses last_t pulse_idx sample_t frames =
     (if sample_t \<le> last_t
      then (case sample_volume logic_pulses (find_pulse logic_pulses pulse_idx sample_t)
                   sample_t of
              Inl e \<Rightarrow> Inl e
            | Inr v \<Rightarrow>
                (case pack_h v of
                   Inl e \<Rightarrow> Inl e
                 | Inr n \<Rightarrow>
                     sample_loop logic_pulses last_t
                       (find_pulse logic_pulses pulse_idx sample_t)
                       (sample_t + 1 / of_int SAMPLE_RATE) (frames @ [n])))
      else Inr frames)"
  by pat_completeness auto
termination
proof (relation "measure (\<lambda>(ps, last_t, i, t, fs). nat (\<lfloor>(last_t - t) * 44100\<rfloor> + 1))")
  show "wf (measure (\<lambda>(ps, last_t, i, t, fs). nat (\<lfloor>(last_t - t) * 44100\<rfloor> + 1)))"
    by simp
next
  fix logic_pulses :: "(real \<times> real) list" and last_t sample_t :: real
    and pulse_idx :: nat and frames :: "int list" and n :: int
  assume le: "sample_t \<le> last_t"
  have eq: "(last_t - (sample_t + 1 / of_int SAMPLE_RATE)) * 44100 = (last_t - sample_t) * 44100 - 1"
    by (simp add: SAMPLE_RATE_def algebra_simps)
  have fl: "\<lfloor>(last_t - (sample_t + 1 / of_int SAMPLE_RATE)) * 44100\<rfloor> =
            \<lfloor>(last_t - sample_t) * 44100\<rfloor> - 1"
    unfolding eq by simp
  have nn: "0 \<le> \<lfloor>(last_t - sample_t) * 44100\<rfloor>"
    using le by simp
  have "nat (\<lfloor>(last_t - (sample_t + 1 / of_int SAMPLE_RATE)) * 44100\<rfloor> + 1) <
        nat (\<lfloor>(last_t - sample_t) * 44100\<rfloor> + 1)"
    unfolding fl using nn by simp
  then show "((logic_pulses, last_t, find_pulse logic_pulses pulse_idx sample_t,
               sample_t + 1 / of_int SAMPLE_RATE, frames @ [n]),
              (logic_pulses, last_t, pulse_idx, sample_t, frames))
             \<in> measure (\<lambda>(ps, last_t, i, t, fs). nat (\<lfloor>(last_t - t) * 44100\<rfloor> + 1))"
    by (simp only: in_measure prod.case)
qed

declare sample_loop.simps [simp del]

text \<open>
  \<^verbatim>\<open>generate_wav\<close>, with the file left out: the frames it writes and the timers it
  leaves behind. \<^verbatim>\<open>logic_pulses[-1][-1]\<close> raises \<^verbatim>\<open>IndexError\<close> on the empty list.
\<close>

definition generate_wav ::
  "cmd list \<Rightarrow> int \<Rightarrow> timer \<times> timer \<Rightarrow> (error + int list \<times> (timer \<times> timer)) option" where
  "generate_wav cmds ticks_per_beat tms =
     (case generate_logic_signal cmds ticks_per_beat tms of
        None \<Rightarrow> None
      | Some (Inl e) \<Rightarrow> Some (Inl e)
      | Some (Inr (logic_pulses, tms')) \<Rightarrow>
          if logic_pulses = [] then Some (Inl IndexError)
          else (case sample_loop logic_pulses (snd (last logic_pulses) + LAST_PULSE_OFF_TIME)
                       0 (- FIRST_PULSE_ON_TIME) [] of
                  Inl e \<Rightarrow> Some (Inl e)
                | Inr frames \<Rightarrow> Some (Inr (frames, tms'))))"

text \<open>
  The clock of the \<^verbatim>\<open>for cmd in cmds\<close> loop on its own: \<^verbatim>\<open>cmd_t\<close> is the time of
  the command before plus the tick delta at the tempo in force, and the commands
  \<^verbatim>\<open>begin_program\<close> and \<^verbatim>\<open>set_tempo\<close> set the tempo for the commands after them.
  The value is the \<^verbatim>\<open>cmd_t\<close> of the last command.
\<close>

fun last_event_time :: "int \<Rightarrow> real \<Rightarrow> int \<Rightarrow> cmd list \<Rightarrow> real" where
  "last_event_time ticks_per_beat last_t tempo_now [] = last_t"
| "last_event_time ticks_per_beat last_t tempo_now (c # cs) =
     last_event_time ticks_per_beat
       (last_t + of_int (time c * tempo_now) / (1000000 * of_int ticks_per_beat))
       (if type_c c \<in> set [''begin_program'', ''set_tempo''] then tempo c else tempo_now) cs"

text \<open>
  What a conversion writes, or the exception it raises, without the timers it leaves
  behind.
\<close>

definition written ::
  "(error + int list \<times> (timer \<times> timer)) option \<Rightarrow> (error + int list) option" where
  "written r = map_option (map_sum id fst) r"

section \<open>The decay formula as the specification words it\<close>

text \<open>
  The specification describes the amplitude after the end of a pulse as the product
  \<open>peak \<cdot> decay \<cdot> oscillation\<close>, with \<open>peak\<close> the value of the ramp formula at the
  end of the pulse. This definition follows those words; it is compared with
  \<open>envelope\<close>, which follows the code.
\<close>

definition envelope_decay_spec :: "real \<Rightarrow> real \<Rightarrow> real \<Rightarrow> real" where
  "envelope_decay_spec sample_t pulse_start pulse_end =
     (let peak = min (PULSE_INIT + PULSE_SLOPE * (pulse_end - pulse_start)) PULSE_MAX;
          periods = (sample_t - pulse_end) / ENERGY_TRANSFER_TIME;
          decay = ENERGY_TRANSFER_SPARK_DECAY powr periods;
          oscillation = (if decay \<ge> ENERGY_TRANSFER_EXPONENTIAL_DECAY_START then 1
                         else \<bar>cos (pi * periods / 2)\<bar>)
      in peak * decay * oscillation)"

section \<open>Predicates of the statements\<close>

text \<open>
  The times of a pulse list in the order of the list: start, end, start, end, and so
  on. That this list is sorted says that no pulse ends before it starts and that no
  pulse starts before the one before it has ended.
\<close>

definition pulse_times :: "(real \<times> real) list \<Rightarrow> real list" where
  "pulse_times ps = concat (map (\<lambda>(s, e). [s, e]) ps)"

text \<open>
  The ordering as the specification words it: every pulse of strictly positive
  duration, the starts strictly ascending, no pulse overlapping a later one.
\<close>

definition pulses_strict :: "(real \<times> real) list \<Rightarrow> bool" where
  "pulses_strict ps \<longleftrightarrow>
     (\<forall>(s, e) \<in> set ps. s < e) \<and> sorted_wrt (\<lambda>p q. fst p < fst q \<and> snd p \<le> fst q) ps"

text \<open>
  A timer from which the generator can run when its cursor is at \<open>c\<close>: the timer is
  not behind the cursor, its prescaler and its \<open>top\<close> are positive, its counter is
  below \<open>top\<close>, and its candidate prescalers are positive. \<open>timer_set\<close> is what is
  left of that right after \<^verbatim>\<open>set_note\<close>, before the next \<^verbatim>\<open>update\<close>.
\<close>

definition timer_ready :: "timer \<Rightarrow> real \<Rightarrow> bool" where
  "timer_ready tm c \<longleftrightarrow>
     c \<le> current_t tm \<and> 0 < prescale tm \<and> 0 < top_c tm \<and> current tm < top_c tm \<and>
     (\<forall>v \<in> set (prescale_values tm). 0 < v)"

definition timer_set :: "timer \<Rightarrow> bool" where
  "timer_set tm \<longleftrightarrow>
     0 < prescale tm \<and> 0 \<le> top_c tm \<and> (\<forall>v \<in> set (prescale_values tm). 0 < v)"

text \<open>
  The invariant of the generator: the pulses emitted so far are in order, the open
  pulse did not start after the cursor, and every emitted time lies before the start
  of the open pulse (output high) or before the cursor (output low).
\<close>

definition pulses_ordered :: "gen \<Rightarrow> bool" where
  "pulses_ordered g \<longleftrightarrow>
     sorted (pulse_times (pulses g)) \<and>
     current_pulse_start g \<le> current_t_g g \<and>
     (\<forall>x \<in> set (pulse_times (pulses g)).
        x \<le> (if current_state_g g then current_pulse_start g else current_t_g g))"

definition gen_ready :: "gen \<Rightarrow> bool" where
  "gen_ready g \<longleftrightarrow>
     timer_ready (timer1 g) (current_t_g g) \<and> timer_ready (timer2 g) (current_t_g g) \<and>
     pulses_ordered g"

definition gen_synced :: "gen \<Rightarrow> bool" where
  "gen_synced g \<longleftrightarrow> gen_ready g \<and> current_t_g g = last_cmd_t g \<and> 0 \<le> current_tempo g"

text \<open>The part of a timer that \<^verbatim>\<open>__init__\<close> sets and no method changes.\<close>

definition same_config :: "timer \<Rightarrow> timer \<Rightarrow> bool" where
  "same_config tm tm0 \<longleftrightarrow>
     max_c tm = max_c tm0 \<and> prescale_values tm = prescale_values tm0 \<and>
     min_freq tm = min_freq tm0"

text \<open>
  A timer as \<^verbatim>\<open>__init__\<close> leaves its configuration when it is given a positive
  \<open>max\<close> and a non-empty ascending list of positive prescalers.
\<close>

definition timer_config_ok :: "timer \<Rightarrow> bool" where
  "timer_config_ok tm \<longleftrightarrow>
     0 < max_c tm \<and> prescale_values tm \<noteq> [] \<and> sorted (prescale_values tm) \<and>
     (\<forall>v \<in> set (prescale_values tm). 0 < v) \<and>
     min_freq tm = ARDUINO_FREQ / of_int (last (prescale_values tm) * max_c tm)"

text \<open>The invariants the data model states for a timer.\<close>

definition timer_inv :: "timer \<Rightarrow> bool" where
  "timer_inv tm \<longleftrightarrow>
     0 \<le> current tm \<and> current tm < top_c tm \<and> duty tm \<le> top_c tm \<and>
     prescale tm \<in> set (prescale_values tm)"

section \<open>Example command streams\<close>

text \<open>A single note-on at time 0 (pitch 69, intensity 10, first timer).\<close>

definition note_on_alone :: "cmd list" where
  "note_on_alone =
     [\<lparr> type_c = ''note_on'', time = 0, tempo = 0, timer_c = 1, note_c = 69, volume = 10 \<rparr>]"

text \<open>
  The same note after a \<^verbatim>\<open>begin_program\<close> that sets the tempo to 25 microseconds
  per beat, held until a last command one tick (25 microseconds, at one tick per beat)
  later. The last command is of a type the generator does not act on.
\<close>

definition held_note :: "cmd list" where
  "held_note =
     [\<lparr> type_c = ''begin_program'', time = 0, tempo = 25, timer_c = 0, note_c = 0, volume = 0 \<rparr>,
      \<lparr> type_c = ''note_on'', time = 0, tempo = 0, timer_c = 1, note_c = 69, volume = 10 \<rparr>,
      \<lparr> type_c = ''end_program'', time = 1, tempo = 0, timer_c = 0, note_c = 0, volume = 0 \<rparr>]"

text \<open>The held note with the intensity \<open>v\<close>.\<close>

definition held_note_at :: "int \<Rightarrow> cmd list" where
  "held_note_at v =
     [\<lparr> type_c = ''begin_program'', time = 0, tempo = 25, timer_c = 0, note_c = 0, volume = 0 \<rparr>,
      \<lparr> type_c = ''note_on'', time = 0, tempo = 0, timer_c = 1, note_c = 69, volume = v \<rparr>,
      \<lparr> type_c = ''end_program'', time = 1, tempo = 0, timer_c = 0, note_c = 0, volume = 0 \<rparr>]"

text \<open>The same, with a note-on for the second timer as the last command.\<close>

definition two_notes :: "cmd list" where
  "two_notes =
     [\<lparr> type_c = ''begin_program'', time = 0, tempo = 25, timer_c = 0, note_c = 0, volume = 0 \<rparr>,
      \<lparr> type_c = ''note_on'', time = 0, tempo = 0, timer_c = 1, note_c = 69, volume = 10 \<rparr>,
      \<lparr> type_c = ''note_on'', time = 1, tempo = 0, timer_c = 2, note_c = 69, volume = 10 \<rparr>]"

text \<open>The two timers as a first conversion of \<open>two_notes\<close> leaves them.\<close>

definition Timer1_left :: timer where
  "Timer1_left =
     Timer1 \<lparr> prescale := 1, top_c := 36364, duty := 320, current := 400,
              current_t := 1 / 40000 \<rparr>"

definition Timer2_left :: timer where
  "Timer2_left =
     Timer2 \<lparr> prescale := 256, top_c := 142, duty := 1, current := 0,
              current_t := 1 / 40000 \<rparr>"

text \<open>
  The note of \<open>held_note\<close>, switched off by the last command, and the two timers as
  a conversion of this stream leaves them.
\<close>

definition note_and_off :: "cmd list" where
  "note_and_off =
     [\<lparr> type_c = ''begin_program'', time = 0, tempo = 25, timer_c = 0, note_c = 0, volume = 0 \<rparr>,
      \<lparr> type_c = ''note_on'', time = 0, tempo = 0, timer_c = 1, note_c = 69, volume = 10 \<rparr>,
      \<lparr> type_c = ''both_off'', time = 1, tempo = 0, timer_c = 0, note_c = 0, volume = 0 \<rparr>]"

definition Timer1_off :: timer where
  "Timer1_off =
     Timer1 \<lparr> prescale := 1, top_c := 36364, duty := 0, current := 400,
              current_t := 1 / 40000 \<rparr>"

definition Timer2_off :: timer where
  "Timer2_off = Timer2 \<lparr> current := 144, current_t := 1 / 40000 \<rparr>"

section \<open>Basic facts\<close>

lemmas consts_defs =
  COIL_FREQ_def HALF_CYCLE_LENGTH_def MAX_HALF_CYCLES_def MAX_PULSE_LENGTH_def
  SAMPLE_RATE_def PULSE_INIT_def PULSE_MAX_def PULSE_STEP_def PULSE_SLOPE_def
  MIDI_BASE_FREQ_def MIDI_BASE_NOTE_def ARDUINO_FREQ_def ENERGY_TRANSFER_HALF_CYCLES_def
  ENERGY_TRANSFER_TIME_def ENERGY_TRANSFER_SPARK_DECAY_def
  ENERGY_TRANSFER_EXPONENTIAL_DECAY_START_def FIRST_PULSE_ON_TIME_def LAST_PULSE_OFF_TIME_def

lemma Timer1_eq:
  "Timer1 = \<lparr> max_c = 65536, prescale_values = [1, 8, 64, 256, 1024], prescale = 1,
              top_c = 65536, min_freq = 15625 / 65536, duty = 0, current = 0,
              current_t = 0 \<rparr>"
  by (simp add: Timer1_def ArduinoTimerSim_init_def ARDUINO_FREQ_def)

lemma Timer2_eq:
  "Timer2 = \<lparr> max_c = 256, prescale_values = [1, 8, 32, 64, 128, 256, 1024], prescale = 1,
              top_c = 256, min_freq = 15625 / 256, duty = 0, current = 0,
              current_t = 0 \<rparr>"
  by (simp add: Timer2_def ArduinoTimerSim_init_def ARDUINO_FREQ_def)

lemma Timer1_constructed:
  "ArduinoTimerSim_init (2 ^ 16) [1, 8, 64, 256, 1024] = Inr Timer1"
  by (simp add: Timer1_def ArduinoTimerSim_init_def)

lemma Timer2_constructed:
  "ArduinoTimerSim_init (2 ^ 8) [1, 8, 32, 64, 128, 256, 1024] = Inr Timer2"
  by (simp add: Timer2_def ArduinoTimerSim_init_def)

text \<open>The configurations of the two timers of the program.\<close>

lemma profile_candidates:
  assumes "same_config tm Timer1 \<or> same_config tm Timer2"
  shows "set (prescale_values tm) \<subseteq> {1, 8, 32, 64, 128, 256, 1024}"
  using assms by (auto simp: same_config_def Timer1_eq Timer2_eq)

lemma profile_config_ok:
  assumes "same_config tm Timer1 \<or> same_config tm Timer2"
  shows "timer_config_ok tm"
  using assms by (auto simp: same_config_def Timer1_eq Timer2_eq timer_config_ok_def ARDUINO_FREQ_def)

subsection \<open>Rounding and truncation\<close>

lemma py_round_of_int [simp]: "py_round (of_int n) = n"
  by (simp add: py_round_def)

lemma py_round_bounds: "\<lfloor>x\<rfloor> \<le> py_round x \<and> py_round x \<le> \<lceil>x\<rceil>"
proof -
  have "x - of_int \<lfloor>x\<rfloor> = 0 \<or> \<lfloor>x\<rfloor> + 1 \<le> \<lceil>x\<rceil>"
    by (metis ceiling_altdef diff_eq_eq add.commute add_0 order_refl of_int_floor_cancel)
  moreover have "\<lfloor>x\<rfloor> \<le> \<lceil>x\<rceil>"
    by (simp add: floor_le_ceiling)
  ultimately show ?thesis
    by (auto simp: py_round_def Let_def)
qed

lemma py_round_nonneg: "0 \<le> x \<Longrightarrow> 0 \<le> py_round x"
  using py_round_bounds [of x] by (meson order_trans zero_le_floor)

lemma py_round_nonpos: "x \<le> 0 \<Longrightarrow> py_round x \<le> 0"
  using py_round_bounds [of x] by (meson order_trans ceiling_le_zero)

lemma py_round_ge_int: "of_int m \<le> x \<Longrightarrow> m \<le> py_round x"
  using py_round_bounds [of x] by (meson le_floor_iff order_trans)

lemma py_round_le_int: "x \<le> of_int m \<Longrightarrow> py_round x \<le> m"
  using py_round_bounds [of x] by (meson ceiling_le_iff order_trans)

text \<open>
  What \<^verbatim>\<open>update\<close> leaves in the counter is the remainder of a truncating division:
  smaller than \<open>top\<close> in absolute value, and the usual \<open>mod\<close> on a counter that is
  not negative.
\<close>

lemma py_int_rem_bounds:
  fixes c tp :: int
  assumes "0 < tp"
  shows "\<bar>c - tp * py_int (of_int c / of_int tp)\<bar> < tp"
proof (cases "0 \<le> c")
  case True
  then have "py_int (of_int c / of_int tp) = c div tp"
    using assms by (simp add: py_int_def floor_divide_of_int_eq)
  moreover have "0 \<le> c mod tp" "c mod tp < tp"
    using assms by simp_all
  ultimately show ?thesis
    by (simp add: minus_mult_div_eq_mod)
next
  case False
  then have "(of_int c :: real) / of_int tp < 0"
    using assms by (simp add: divide_neg_pos)
  then have "py_int (of_int c / of_int tp) = - \<lfloor>- ((of_int c :: real) / of_int tp)\<rfloor>"
    by (simp add: py_int_def)
  also have "\<dots> = - \<lfloor>of_int (- c) / (of_int tp :: real)\<rfloor>"
    by simp
  also have "\<dots> = - ((- c) div tp)"
    by (simp only: floor_divide_of_int_eq)
  finally have eq: "py_int (of_int c / of_int tp) = - ((- c) div tp)" .
  have "c - tp * (- ((- c) div tp)) = - ((- c) mod tp)"
    by (simp add: algebra_simps flip: minus_mult_div_eq_mod)
  moreover have "0 \<le> (- c) mod tp" "(- c) mod tp < tp"
    using assms by simp_all
  ultimately show ?thesis
    unfolding eq by simp
qed

lemma py_int_rem_nonneg:
  fixes c tp :: int
  assumes "0 < tp" and "0 \<le> c"
  shows "c - tp * py_int (of_int c / of_int tp) = c mod tp"
proof -
  have "py_int (of_int c / of_int tp) = c div tp"
    using assms by (simp add: py_int_def floor_divide_of_int_eq)
  then show ?thesis
    by (simp add: minus_mult_div_eq_mod)
qed

subsection \<open>Unfolding the inner loop\<close>

lemma advance_run:
  "current_t_g g < cmd_t \<Longrightarrow>
   advance g cmd_t =
     (case update_state g
             (if min (next_change (timer1 g)) (next_change (timer2 g)) < cmd_t
              then min (next_change (timer1 g)) (next_change (timer2 g))
              else cmd_t) of
        Inl e \<Rightarrow> Some (Inl e)
      | Inr g' \<Rightarrow> advance g' cmd_t)"
  by (subst advance.simps) simp

lemma advance_stop: "\<not> current_t_g g < cmd_t \<Longrightarrow> advance g cmd_t = Some (Inr g)"
  by (subst advance.simps) simp

section \<open>Time that runs backwards\<close>

text \<open>
  C1. The claim: \<^verbatim>\<open>update\<close> called with a time before the timer's
  \<open>current_t\<close> fails fast. The code has no such test. What holds: for a time before
  \<open>current_t\<close>, a positive prescaler and a \<open>top\<close> other than zero, \<^verbatim>\<open>update\<close>
  returns normally; the tick count it adds is the rounded, non-positive number
  \<open>round((t - current_t) \<cdot> 16000000 / prescale)\<close>, the counter is reduced by a
  truncating division by \<open>top\<close>, and \<open>current_t\<close> is set back to \<open>t\<close>.
\<close>

theorem update_backwards:
  assumes "t < current_t tm" and "0 < prescale tm" and "top_c tm \<noteq> 0"
  shows "\<exists>tm' ticks.
           update tm t = Inr tm' \<and>
           ticks = py_round ((t - current_t tm) * ARDUINO_FREQ / of_int (prescale tm)) \<and>
           ticks \<le> 0 \<and>
           current tm' = (current tm + ticks)
              - top_c tm * py_int (of_int (current tm + ticks) / of_int (top_c tm)) \<and>
           current_t tm' = t"
proof -
  have "(t - current_t tm) * ARDUINO_FREQ / of_int (prescale tm) \<le> 0"
    using assms(1,2) by (simp add: ARDUINO_FREQ_def divide_le_0_iff mult_le_0_iff)
  then have "py_round ((t - current_t tm) * ARDUINO_FREQ / of_int (prescale tm)) \<le> 0"
    by (rule py_round_nonpos)
  then show ?thesis
    using assms(2,3) by (simp add: update_def Let_def)
qed

theorem update_backwards_witness:
  "\<exists>tm' ticks.
     update (Timer1 \<lparr> current := 9216, current_t := 1 \<rparr>) (1 / 2) = Inr tm' \<and>
     ticks = (- 8000000 :: int) \<and> ticks \<le> 0 \<and> current tm' = - 60928 \<and>
     current_t tm' = 1 / 2"
  using update_backwards [of "1 / 2" "Timer1 \<lparr> current := 9216, current_t := 1 \<rparr>"]
  by (simp add: Timer1_eq ARDUINO_FREQ_def py_round_def py_int_def Let_def)

text \<open>
  The first timer, advanced to one second and then asked to go back to half a second:
  no error, and a counter of \<open>-60928\<close>.
\<close>

theorem update_backwards_counterexample:
  "update Timer1 1 = Inr (Timer1 \<lparr> current := 9216, current_t := 1 \<rparr>) \<and>
   1 / 2 < current_t (Timer1 \<lparr> current := 9216, current_t := 1 \<rparr>) \<and>
   update (Timer1 \<lparr> current := 9216, current_t := 1 \<rparr>) (1 / 2) =
     Inr (Timer1 \<lparr> current := - 60928, current_t := 1 / 2 \<rparr>)"
  by (simp add: Timer1_eq update_def ARDUINO_FREQ_def py_round_def py_int_def Let_def)

section \<open>The envelope\<close>

text \<open>
  C10. The claim: for a sample time at or before the start of a pulse,
  \<^verbatim>\<open>envelope\<close> returns an integer. It returns \<^verbatim>\<open>None\<close>: neither branch is taken.
  For the pulse \<open>(0, 0)\<close> and the sample time \<open>0\<close> the sampling loop passes that
  \<^verbatim>\<open>None\<close> to \<^verbatim>\<open>struct.pack\<close>, which raises; for a later sample time the decay
  branch calls \<^verbatim>\<open>envelope\<close> at the end of the pulse, gets \<^verbatim>\<open>None\<close> and raises
  \<^verbatim>\<open>TypeError\<close> on the multiplication.
\<close>

theorem envelope_none_at_pulse_start:
  "envelope 0 0 0 = Inr None \<and>
   sample_volume [(0, 0)] (find_pulse [(0, 0)] 0 0) 0 = Inr None \<and>
   pack_h None = Inl StructError \<and>
   sample_loop [(0, 0)] 1 0 0 [] = Inl StructError \<and>
   envelope (1 / 44100) 0 0 = Inl TypeError"
  by (simp add: envelope.simps sample_volume_def find_pulse.simps pack_h_def
      sample_loop.simps)

text \<open>
  C7. The claim: after the end of a pulse the amplitude equals
  \<open>peak \<cdot> decay \<cdot> oscillation\<close>. The code converts twice to an integer. What holds:
  for \<open>pulse_start < pulse_end < sample_t\<close> the result is that product truncated
  toward zero, where \<open>peak\<close> is itself the ramp value at the end of the pulse
  truncated toward zero; the one recursive call is the ramp formula at \<open>pulse_end\<close>.
\<close>

theorem envelope_decay:
  assumes "pulse_start < pulse_end" and "pulse_end < sample_t"
  shows "envelope sample_t pulse_start pulse_end =
     (let peak = py_int (min (PULSE_INIT + PULSE_SLOPE * (pulse_end - pulse_start)) PULSE_MAX);
          periods = (sample_t - pulse_end) / ENERGY_TRANSFER_TIME;
          decay = ENERGY_TRANSFER_SPARK_DECAY powr periods;
          oscillation = (if decay \<ge> ENERGY_TRANSFER_EXPONENTIAL_DECAY_START then 1
                         else \<bar>cos (pi * periods / 2)\<bar>)
      in Inr (Some (py_int (of_int peak * decay * oscillation))))"
proof -
  have inner: "envelope pulse_end pulse_start pulse_end =
      Inr (Some (py_int (min (PULSE_INIT + PULSE_SLOPE * (pulse_end - pulse_start)) PULSE_MAX)))"
    using assms(1) by (subst envelope.simps) simp
  show ?thesis
    using assms(2) by (subst envelope.simps) (simp add: inner Let_def not_less mult_ac)
qed

theorem envelope_decay_witness:
  "(0::real) < 1 / 50000 \<and> (1 / 50000 :: real) < 9 / 250000 \<and>
   envelope (9 / 250000) 0 (1 / 50000) = Inr (Some (py_int (32767 * (1 / 2) * 1)))"
  using envelope_decay [of 0 "1 / 50000" "9 / 250000"]
  by (simp add: consts_defs py_int_def Let_def)

text \<open>
  A pulse of 20 microseconds, sampled 16 microseconds (one energy-transfer period)
  after its end: the product of the specification is \<open>16383.5\<close>, the code returns
  \<open>16383\<close>.
\<close>

theorem envelope_decay_counterexample:
  "envelope (9 / 250000) 0 (1 / 50000) = Inr (Some 16383) \<and>
   envelope_decay_spec (9 / 250000) 0 (1 / 50000) = 32767 / 2"
  by (simp add: envelope.simps envelope_decay_spec_def consts_defs py_int_def)

section \<open>The output of one timer\<close>

text \<open>
  In exact arithmetic the time \<^verbatim>\<open>next_change\<close> returns is a whole number of ticks
  after \<open>current_t\<close>, and \<^verbatim>\<open>update\<close> to that time puts the counter on the
  boundary.
\<close>

lemma next_change_exact:
  assumes "prescale tm \<noteq> 0" and "0 < duty tm" and "duty tm < top_c tm"
    and "current tm < top_c tm"
  shows "\<exists>tm'. update tm (next_change tm) = Inr tm' \<and>
               current_state tm' = (\<not> current_state tm)"
proof (cases "current_state tm")
  case True
  have "(next_change tm - current_t tm) * ARDUINO_FREQ / of_int (prescale tm)
          = of_int (duty tm - current tm)"
    using True assms(1) by (simp add: next_change_def ARDUINO_FREQ_def)
  then have ticks:
    "py_round ((next_change tm - current_t tm) * ARDUINO_FREQ / of_int (prescale tm))
       = duty tm - current tm"
    by (simp only: py_round_of_int)
  have "py_int (of_int (duty tm) / of_int (top_c tm)) = duty tm div top_c tm"
    using assms(2,3) by (simp add: py_int_def floor_divide_of_int_eq)
  then have quot: "py_int (of_int (duty tm) / of_int (top_c tm)) = 0"
    using assms(2,3) by simp
  have "update tm (next_change tm) =
          Inr (tm \<lparr> current := duty tm, current_t := next_change tm \<rparr>)"
    using assms(1,2,3) unfolding update_def Let_def ticks by (simp add: quot)
  then show ?thesis
    using True by (simp add: current_state_def)
next
  case False
  have "(next_change tm - current_t tm) * ARDUINO_FREQ / of_int (prescale tm)
          = of_int (top_c tm - current tm)"
    using False assms(1) by (simp add: next_change_def ARDUINO_FREQ_def)
  then have ticks:
    "py_round ((next_change tm - current_t tm) * ARDUINO_FREQ / of_int (prescale tm))
       = top_c tm - current tm"
    by (simp only: py_round_of_int)
  have nz: "top_c tm \<noteq> 0"
    using assms(2,3) by simp
  have "update tm (next_change tm) =
          Inr (tm \<lparr> current := 0, current_t := next_change tm \<rparr>)"
    using assms(1) nz unfolding update_def Let_def ticks by (simp add: py_int_def)
  then show ?thesis
    using False assms(2) by (simp add: current_state_def)
qed

text \<open>
  C6. The claim: in every reachable state, advancing a timer to the time
  \<^verbatim>\<open>next_change\<close> returns makes \<^verbatim>\<open>current_state\<close> flip. A timer that is off
  (duty \<open>0\<close>) never flips. What holds, for a timer with the configuration of one of
  the two timers of the program that satisfies the invariants of a timer, with
  \<open>top\<close> at most \<open>max\<close>, a duty strictly between \<open>0\<close> and \<open>top\<close>, and
  \<open>current_t\<close> between 0 and \<open>2^20\<close> seconds: \<^verbatim>\<open>update\<close> to
  \<^verbatim>\<open>next_change()\<close> returns and the output changes, from high to low at the duty
  boundary and from low to high at the period boundary. The bound on \<open>current_t\<close>
  is the one of the introduction; in binary64 the sum in \<^verbatim>\<open>next_change\<close> no longer
  holds a step of one tick when \<open>current_t\<close> is \<open>2^30\<close>.
\<close>

theorem next_change_flips:
  assumes "same_config tm Timer1 \<or> same_config tm Timer2" and "timer_inv tm"
    and "top_c tm \<le> max_c tm" and "0 < duty tm" and "duty tm < top_c tm"
    and "0 \<le> current_t tm" and "current_t tm \<le> 2 ^ 20"
  shows "\<exists>tm'. update tm (next_change tm) = Inr tm' \<and>
               current_state tm' = (\<not> current_state tm)"
proof -
  from assms(2) profile_candidates [OF assms(1)] have p: "prescale tm \<noteq> 0"
    by (auto simp: timer_inv_def)
  from assms(2) have c: "current tm < top_c tm"
    by (simp add: timer_inv_def)
  show ?thesis
    using p assms(4,5) c by (rule next_change_exact)
qed

text \<open>
  The first timer with the note of pitch 69 at time 0, its output high, and the second
  timer with the note of pitch 81 at \<open>2^20\<close> seconds, its output low.
\<close>

theorem next_change_flips_witness:
  "(\<exists>tm'. update (Timer1 \<lparr> top_c := 36364, duty := 320 \<rparr>)
                  (next_change (Timer1 \<lparr> top_c := 36364, duty := 320 \<rparr>)) = Inr tm' \<and>
         current_state (Timer1 \<lparr> top_c := 36364, duty := 320 \<rparr>) \<and> \<not> current_state tm') \<and>
   (\<exists>tm'. update (Timer2 \<lparr> prescale := 128, top_c := 142, duty := 2, current := 5,
                            current_t := 1048576 \<rparr>)
                  (next_change (Timer2 \<lparr> prescale := 128, top_c := 142, duty := 2, current := 5,
                                         current_t := 1048576 \<rparr>)) = Inr tm' \<and>
         \<not> current_state (Timer2 \<lparr> prescale := 128, top_c := 142, duty := 2, current := 5,
                                    current_t := 1048576 \<rparr>) \<and> current_state tm')"
  using next_change_flips [of "Timer1 \<lparr> top_c := 36364, duty := 320 \<rparr>"]
    next_change_flips [of "Timer2 \<lparr> prescale := 128, top_c := 142, duty := 2, current := 5,
                                     current_t := 1048576 \<rparr>"]
  by (simp add: Timer1_eq Timer2_eq current_state_def same_config_def timer_inv_def)

text \<open>
  The first timer as constructed: its output is low, the next change is the period
  boundary after 65536 ticks, and after the update the output is low again.
\<close>

theorem next_change_no_flip_counterexample:
  "next_change Timer1 = 64 / 15625 \<and>
   update Timer1 (next_change Timer1) = Inr (Timer1 \<lparr> current_t := 64 / 15625 \<rparr>) \<and>
   current_state Timer1 = current_state (Timer1 \<lparr> current_t := 64 / 15625 \<rparr>)"
  by (simp add: Timer1_eq next_change_def current_state_def update_def ARDUINO_FREQ_def
      py_round_def py_int_def Let_def)

section \<open>Running the generator\<close>

subsection \<open>Evaluating the example streams\<close>

lemmas run_defs =
  update_def set_note_def set_off_def current_state_def next_change_def get_midi_freq_def
  int_too_large_def
  py_round_def py_int_def update_state_def apply_cmd_def cmd_step_def gen_init_def
  generate_logic_signal_def ArduinoTimers_index_def Let_def advance_run advance_stop

lemma Timer1_left_eq:
  "Timer1_left = \<lparr> max_c = 65536, prescale_values = [1, 8, 64, 256, 1024], prescale = 1,
              top_c = 36364, min_freq = 15625 / 65536, duty = 320, current = 400,
              current_t = 1 / 40000 \<rparr>"
  by (simp add: Timer1_left_def Timer1_eq)

lemma Timer2_left_eq:
  "Timer2_left = \<lparr> max_c = 256, prescale_values = [1, 8, 32, 64, 128, 256, 1024], prescale = 256,
              top_c = 142, min_freq = 15625 / 256, duty = 1, current = 0,
              current_t = 1 / 40000 \<rparr>"
  by (simp add: Timer2_left_def Timer2_eq)

lemma two_notes_first_run:
  "generate_logic_signal two_notes 1 (Timer1, Timer2) =
     Some (Inr ([(0, 0), (0, 1 / 50000)], (Timer1_left, Timer2_left)))"
  unfolding Timer1_left_eq Timer2_left_eq
  by (simp add: run_defs consts_defs Timer1_eq Timer2_eq two_notes_def
      cong: sum.case_cong_weak option.case_cong_weak)

lemma two_notes_second_run:
  "generate_logic_signal two_notes 1 (Timer1_left, Timer2_left) =
     Some (Inr ([], (Timer1_left, Timer2_left \<lparr> current := - 1 \<rparr>)))"
  unfolding Timer1_left_eq Timer2_left_eq
  by (simp add: run_defs consts_defs two_notes_def
      cong: sum.case_cong_weak option.case_cong_weak)

lemma held_note_run:
  "generate_logic_signal held_note 1 (Timer1, Timer2) =
     Some (Inr ([(0, 0), (0, 1 / 50000)],
       (\<lparr> max_c = 65536, prescale_values = [1, 8, 64, 256, 1024], prescale = 1,
           top_c = 36364, min_freq = 15625 / 65536, duty = 320, current = 400,
           current_t = 1 / 40000 \<rparr>,
        \<lparr> max_c = 256, prescale_values = [1, 8, 32, 64, 128, 256, 1024], prescale = 1,
           top_c = 256, min_freq = 15625 / 256, duty = 0, current = 144,
           current_t = 1 / 40000 \<rparr>)))"
  by (simp add: run_defs consts_defs Timer1_eq Timer2_eq held_note_def
      cong: sum.case_cong_weak option.case_cong_weak)

lemma Timer1_off_eq:
  "Timer1_off = \<lparr> max_c = 65536, prescale_values = [1, 8, 64, 256, 1024], prescale = 1,
              top_c = 36364, min_freq = 15625 / 65536, duty = 0, current = 400,
              current_t = 1 / 40000 \<rparr>"
  by (simp add: Timer1_off_def Timer1_eq)

lemma Timer2_off_eq:
  "Timer2_off = \<lparr> max_c = 256, prescale_values = [1, 8, 32, 64, 128, 256, 1024], prescale = 1,
              top_c = 256, min_freq = 15625 / 256, duty = 0, current = 144,
              current_t = 1 / 40000 \<rparr>"
  by (simp add: Timer2_off_def Timer2_eq)

lemma note_and_off_first_run:
  "generate_logic_signal note_and_off 1 (Timer1, Timer2) =
     Some (Inr ([(0, 0), (0, 1 / 50000)], (Timer1_off, Timer2_off)))"
  unfolding Timer1_off_eq Timer2_off_eq
  by (simp add: run_defs consts_defs Timer1_eq Timer2_eq note_and_off_def
      cong: sum.case_cong_weak option.case_cong_weak)

lemma note_and_off_second_run:
  "generate_logic_signal note_and_off 1 (Timer1_off, Timer2_off) =
     Some (Inr ([(0, 0), (0, 1 / 50000)], (Timer1_off, Timer2_off)))"
  unfolding Timer1_off_eq Timer2_off_eq
  by (simp add: run_defs consts_defs note_and_off_def
      cong: sum.case_cong_weak option.case_cong_weak)

text \<open>
  The held note at every intensity from 0 on: \<open>k\<close> is the capped intensity, and
  the duty is \<open>32 \<cdot> k\<close> ticks, one tick when that is 0.
\<close>

lemma held_note_at_run:
  assumes "min v 10 = k" and "k \<in> {0, 1, 2, 3, 4, 5, 6, 7, 8, 9, 10}"
  shows "generate_logic_signal (held_note_at v) 1 (Timer1, Timer2) =
     Some (Inr ([(0, 0), (0, of_int (max 1 (32 * k)) / 16000000)],
       (\<lparr> max_c = 65536, prescale_values = [1, 8, 64, 256, 1024], prescale = 1,
           top_c = 36364, min_freq = 15625 / 65536, duty = max 1 (32 * k), current = 400,
           current_t = 1 / 40000 \<rparr>,
        \<lparr> max_c = 256, prescale_values = [1, 8, 32, 64, 128, 256, 1024], prescale = 1,
           top_c = 256, min_freq = 15625 / 256, duty = 0, current = 144,
           current_t = 1 / 40000 \<rparr>)))"
  using assms(2)
proof (elim insertE emptyE)
  assume "k = 0"
  with assms(1) show ?thesis
    by (simp add: run_defs consts_defs Timer1_eq Timer2_eq held_note_at_def
        cong: sum.case_cong_weak option.case_cong_weak)
next
  assume "k = 5"
  with assms(1) show ?thesis
    by (simp add: run_defs consts_defs Timer1_eq Timer2_eq held_note_at_def
        cong: sum.case_cong_weak option.case_cong_weak)
next
  assume "k = 9"
  with assms(1) show ?thesis
    by (simp add: run_defs consts_defs Timer1_eq Timer2_eq held_note_at_def
        cong: sum.case_cong_weak option.case_cong_weak)
next
  assume "k = 10"
  with assms(1) show ?thesis
    by (simp add: run_defs consts_defs Timer1_eq Timer2_eq held_note_at_def
        cong: sum.case_cong_weak option.case_cong_weak)
qed (simp_all add: run_defs consts_defs Timer1_eq Timer2_eq held_note_at_def assms(1)
        cong: sum.case_cong_weak option.case_cong_weak)

subsection \<open>Invariants of a run\<close>

text \<open>
  A property of the generator state that \<^verbatim>\<open>update_state\<close> and the command
  dispatch keep, and that does not depend on \<^verbatim>\<open>last_cmd_t\<close>, holds after the inner
  loop, after one command and after the whole list, whenever these return.
\<close>

lemma advance_invariant:
  assumes ret: "advance g cmd_t = Some (Inr g')"
    and step: "\<And>g t g'. Q g \<Longrightarrow> update_state g t = Inr g' \<Longrightarrow> Q g'"
    and start: "Q g"
  shows "Q g'"
proof -
  have "\<forall>g'. Q g \<longrightarrow> Inr g' = r \<longrightarrow> Q g'" if "advance g cmd_t = Some r" for r
  proof (rule advance.raw_induct [where P = "\<lambda>g c r. \<forall>g'. Q g \<longrightarrow> Inr g' = r \<longrightarrow> Q g'", OF _ that])
    fix f g c r
    assume IH: "\<And>g c r. f g c = Some r \<Longrightarrow> \<forall>g'. Q g \<longrightarrow> Inr g' = r \<longrightarrow> Q g'"
      and eq: "(if current_t_g g < c
          then (case update_state g
                   (if min (next_change (timer1 g)) (next_change (timer2 g)) < c
                    then min (next_change (timer1 g)) (next_change (timer2 g))
                    else c) of
              Inl e \<Rightarrow> Some (Inl e)
            | Inr g' \<Rightarrow> f g' c)
          else Some (Inr g)) = Some r"
    show "\<forall>g'. Q g \<longrightarrow> Inr g' = r \<longrightarrow> Q g'"
    proof (intro allI impI)
      fix g'
      assume q: "Q g" and r: "Inr g' = r"
      show "Q g'"
      proof (cases "current_t_g g < c")
        case False
        with eq r show ?thesis using q by auto
      next
        case True
        let ?t = "if min (next_change (timer1 g)) (next_change (timer2 g)) < c
                    then min (next_change (timer1 g)) (next_change (timer2 g))
                    else c"
        show ?thesis
        proof (cases "update_state g ?t")
          case (Inl e)
          with True eq r show ?thesis by auto
        next
          case (Inr g1)
          with True eq have f: "f g1 c = Some r" by simp
          from step [OF q Inr] have "Q g1" .
          with IH [OF f] r show ?thesis by blast
        qed
      qed
    qed
  qed
  with ret start show ?thesis by blast
qed

lemma cmd_step_invariant:
  assumes ret: "cmd_step tpb g c = Some (Inr g')"
    and step: "\<And>g t g'. Q g \<Longrightarrow> update_state g t = Inr g' \<Longrightarrow> Q g'"
    and app: "\<And>g c g'. Q g \<Longrightarrow> apply_cmd g c = Inr g' \<Longrightarrow> Q g'"
    and last: "\<And>g x. Q g \<Longrightarrow> Q (g \<lparr> last_cmd_t := x \<rparr>)"
    and start: "Q g"
  shows "Q g'"
proof -
  let ?cmd_t = "last_cmd_t g + of_int (time c * current_tempo g) / (1000000 * of_int tpb)"
  from ret obtain g1 g2 where
    a: "advance (g \<lparr> last_cmd_t := ?cmd_t \<rparr>) ?cmd_t = Some (Inr g1)"
    and b: "apply_cmd g1 c = Inr g2"
    and u: "update_state g2 ?cmd_t = Inr g'"
    by (auto simp: cmd_step_def Let_def split: if_splits option.splits sum.splits)
  have "Q g1"
    using a step last [OF start] by (rule advance_invariant)
  then have "Q g2" using b by (rule app)
  then show ?thesis using u by (rule step)
qed

lemma run_cmds_invariant:
  assumes ret: "run_cmds tpb g cmds = Some (Inr g')"
    and step: "\<And>g t g'. Q g \<Longrightarrow> update_state g t = Inr g' \<Longrightarrow> Q g'"
    and app: "\<And>g c g'. Q g \<Longrightarrow> apply_cmd g c = Inr g' \<Longrightarrow> Q g'"
    and last: "\<And>g x. Q g \<Longrightarrow> Q (g \<lparr> last_cmd_t := x \<rparr>)"
    and start: "Q g"
  shows "Q g'"
  using ret start
proof (induction cmds arbitrary: g)
  case Nil
  then show ?case by simp
next
  case (Cons c cs)
  from Cons.prems(1) obtain g1 where s: "cmd_step tpb g c = Some (Inr g1)"
    and r: "run_cmds tpb g1 cs = Some (Inr g')"
    by (auto split: option.splits sum.splits)
  have "Q g1"
    using s step app last Cons.prems(2) by (rule cmd_step_invariant)
  with r show ?case by (rule Cons.IH)
qed

lemma apply_cmd_frame:
  assumes "apply_cmd g c = Inr g'"
  shows "pulses g' = pulses g \<and> current_pulse_start g' = current_pulse_start g \<and>
         current_state_g g' = current_state_g g \<and> current_t_g g' = current_t_g g \<and>
         last_cmd_t g' = last_cmd_t g"
  using assms by (auto simp: apply_cmd_def split: sum.splits if_splits)

section \<open>No pulses to render\<close>

lemma note_on_alone_run:
  "generate_logic_signal note_on_alone 1 (Timer1, Timer2) =
     Some (Inr ([], (Timer1 \<lparr> top_c := 36364, duty := 320 \<rparr>, Timer2)))"
  by (simp add: run_defs consts_defs Timer1_eq Timer2_eq note_on_alone_def
      cong: sum.case_cong_weak option.case_cong_weak)

text \<open>
  C2. The claim: a command stream that yields no pulse is reported as an
  explicit condition, and the empty pulse list is never indexed. On the empty stream,
  whatever the timers hold, and on the single note-on, \<^verbatim>\<open>generate_wav\<close> evaluates
  \<^verbatim>\<open>logic_pulses[-1][-1]\<close> on the empty list and raises \<^verbatim>\<open>IndexError\<close>.
\<close>

theorem generate_wav_no_pulses:
  "generate_wav [] ticks_per_beat tms = Some (Inl IndexError) \<and>
   generate_wav note_on_alone 1 (Timer1, Timer2) = Some (Inl IndexError)"
  by (simp add: generate_wav_def note_on_alone_run)
    (simp add: generate_logic_signal_def gen_init_def)

section \<open>The length of a pulse\<close>

text \<open>
  C8. The claim: a single note-on at time 0 with no note-off after it gives a
  pulse of exactly the maximal pulse length, every pulse ending at
  \<open>min (start + MAX_PULSE_LENGTH) cursor\<close>. The generator simulates up to the time
  of the last command only, so a note-on with nothing after it gives no pulse at all.
  What holds: when the note-on (pitch 69, first timer, intensity \<open>v\<close> from 0 on) is
  followed by a command 25 microseconds later, the generator, on the timers as
  constructed, returns the pulse \<open>(0, 0)\<close> and after it the one pulse of the note,
  from 0 to \<open>min (0 + MAX_PULSE_LENGTH) (d / 16000000)\<close>, where \<open>d\<close> is the duty
  in ticks, \<open>32 \<cdot> min v 10\<close> and at least 1: the maximal pulse length for an
  intensity of 10 or more, less for a smaller one. \<^verbatim>\<open>update_state\<close> appends a pulse
  when the output it has recorded is high and the output of the two timers after the
  update is low, and only then; the pulse it appends starts at
  \<open>current_pulse_start\<close> and ends at
  \<open>min (current_pulse_start + MAX_PULSE_LENGTH) t\<close>, \<open>t\<close> being the time of that
  update. The command dispatch appends nothing.
\<close>

theorem held_note_pulse:
  "(0 \<le> v \<longrightarrow>
      (\<exists>tms'. generate_logic_signal (held_note_at v) 1 (Timer1, Timer2) =
         Some (Inr ([(0, 0),
                     (0, min (0 + MAX_PULSE_LENGTH)
                             (of_int (max 1 (32 * min v 10)) / ARDUINO_FREQ))], tms')))) \<and>
   (update_state g t = Inr g' \<longrightarrow>
      current_state_g g' = (current_state (timer1 g') \<or> current_state (timer2 g')) \<and>
      pulses g' =
        (if current_state_g g \<and> \<not> current_state_g g'
         then pulses g @
                [(current_pulse_start g, min (current_pulse_start g + MAX_PULSE_LENGTH) t)]
         else pulses g)) \<and>
   (apply_cmd h c = Inr h' \<longrightarrow> pulses h' = pulses h)"
proof (intro conjI impI)
  assume v: "0 \<le> v"
  define k where "k = min v 10"
  have "0 \<le> k" "k \<le> 10"
    using v by (simp_all add: k_def)
  then have "k = 0 \<or> k = 1 \<or> k = 2 \<or> k = 3 \<or> k = 4 \<or> k = 5 \<or> k = 6 \<or> k = 7 \<or> k = 8 \<or>
             k = 9 \<or> k = 10"
    by presburger
  then have "k \<in> {0, 1, 2, 3, 4, 5, 6, 7, 8, 9, 10}"
    by simp
  from held_note_at_run [OF k_def [symmetric] this]
  obtain tms' where run: "generate_logic_signal (held_note_at v) 1 (Timer1, Timer2) =
     Some (Inr ([(0, 0), (0, of_int (max 1 (32 * k)) / 16000000)], tms'))"
    by blast
  have "32 * k \<le> 320"
    using \<open>k \<le> 10\<close> by simp
  then have "(of_int (max 1 (32 * k)) :: real) \<le> 320"
    by simp
  then have "min (0 + MAX_PULSE_LENGTH) (of_int (max 1 (32 * k)) / ARDUINO_FREQ)
               = of_int (max 1 (32 * k)) / 16000000"
    by (simp add: consts_defs)
  with run show "\<exists>tms'. generate_logic_signal (held_note_at v) 1 (Timer1, Timer2) =
         Some (Inr ([(0, 0),
                     (0, min (0 + MAX_PULSE_LENGTH)
                             (of_int (max 1 (32 * min v 10)) / ARDUINO_FREQ))], tms'))"
    by (auto simp: k_def)
next
  assume u: "update_state g t = Inr g'"
  then show "current_state_g g' = (current_state (timer1 g') \<or> current_state (timer2 g'))"
    by (auto simp: update_state_def Let_def split: sum.splits if_splits)
  from u show "pulses g' =
        (if current_state_g g \<and> \<not> current_state_g g'
         then pulses g @
                [(current_pulse_start g, min (current_pulse_start g + MAX_PULSE_LENGTH) t)]
         else pulses g)"
    by (auto simp: update_state_def Let_def split: sum.splits if_splits)
next
  assume "apply_cmd h c = Inr h'"
  then show "pulses h' = pulses h"
    by (simp add: apply_cmd_frame)
qed

theorem held_note_pulse_witness:
  "(\<exists>tms'. generate_logic_signal (held_note_at 5) 1 (Timer1, Timer2) =
      Some (Inr ([(0, 0), (0, 1 / 100000)], tms'))) \<and>
   (\<exists>tms'. generate_logic_signal (held_note_at 12) 1 (Timer1, Timer2) =
      Some (Inr ([(0, 0), (0, MAX_PULSE_LENGTH)], tms'))) \<and>
   update_state (gen_init (Timer1, Timer2)) 0 =
     Inr (gen_init (Timer1, Timer2) \<lparr> current_state_g := False, pulses := [(0, 0)] \<rparr>) \<and>
   [(0, 0)] = pulses (gen_init (Timer1, Timer2)) @ [(0, min (0 + MAX_PULSE_LENGTH) 0)] \<and>
   apply_cmd (gen_init (Timer1, Timer2))
      \<lparr> type_c = ''note_on'', time = 0, tempo = 0, timer_c = 1, note_c = 69, volume = 10 \<rparr> =
     Inr (gen_init (Timer1 \<lparr> top_c := 36364, duty := 320 \<rparr>, Timer2)) \<and>
   pulses (gen_init (Timer1 \<lparr> top_c := 36364, duty := 320 \<rparr>, Timer2)) =
     pulses (gen_init (Timer1, Timer2))"
proof -
  have u: "update_state (gen_init (Timer1, Timer2)) 0 =
     Inr (gen_init (Timer1, Timer2) \<lparr> current_state_g := False, pulses := [(0, 0)] \<rparr>)"
    by (simp add: run_defs consts_defs Timer1_eq Timer2_eq)
  have a: "apply_cmd (gen_init (Timer1, Timer2))
      \<lparr> type_c = ''note_on'', time = 0, tempo = 0, timer_c = 1, note_c = 69, volume = 10 \<rparr> =
     Inr (gen_init (Timer1 \<lparr> top_c := 36364, duty := 320 \<rparr>, Timer2))"
    by (simp add: run_defs consts_defs Timer1_eq Timer2_eq)
  have "(\<exists>tms'. generate_logic_signal (held_note_at 5) 1 (Timer1, Timer2) =
      Some (Inr ([(0, 0), (0, 1 / 100000)], tms')))"
    using held_note_pulse [where v = 5 and g = "gen_init (Timer1, Timer2)" and t = 0
        and g' = "gen_init (Timer1, Timer2) \<lparr> current_state_g := False, pulses := [(0, 0)] \<rparr>"
        and h = "gen_init (Timer1, Timer2)"
        and c = "\<lparr> type_c = ''note_on'', time = 0, tempo = 0, timer_c = 1, note_c = 69, volume = 10 \<rparr>"
        and h' = "gen_init (Timer1 \<lparr> top_c := 36364, duty := 320 \<rparr>, Timer2)"]
    by (simp add: consts_defs)
  moreover have "(\<exists>tms'. generate_logic_signal (held_note_at 12) 1 (Timer1, Timer2) =
      Some (Inr ([(0, 0), (0, MAX_PULSE_LENGTH)], tms')))"
    using held_note_pulse [where v = 12 and g = "gen_init (Timer1, Timer2)" and t = 0
        and g' = "gen_init (Timer1, Timer2) \<lparr> current_state_g := False, pulses := [(0, 0)] \<rparr>"
        and h = "gen_init (Timer1, Timer2)"
        and c = "\<lparr> type_c = ''note_on'', time = 0, tempo = 0, timer_c = 1, note_c = 69, volume = 10 \<rparr>"
        and h' = "gen_init (Timer1 \<lparr> top_c := 36364, duty := 320 \<rparr>, Timer2)"]
    by (simp add: consts_defs)
  moreover have "[(0, 0)] = pulses (gen_init (Timer1, Timer2)) @ [(0, min (0 + MAX_PULSE_LENGTH) 0)]"
    using held_note_pulse [where v = 5 and g = "gen_init (Timer1, Timer2)" and t = 0
        and g' = "gen_init (Timer1, Timer2) \<lparr> current_state_g := False, pulses := [(0, 0)] \<rparr>"
        and h = "gen_init (Timer1, Timer2)"
        and c = "\<lparr> type_c = ''note_on'', time = 0, tempo = 0, timer_c = 1, note_c = 69, volume = 10 \<rparr>"
        and h' = "gen_init (Timer1 \<lparr> top_c := 36364, duty := 320 \<rparr>, Timer2)"] u
    by (simp add: gen_init_def)
  moreover have "pulses (gen_init (Timer1 \<lparr> top_c := 36364, duty := 320 \<rparr>, Timer2)) =
     pulses (gen_init (Timer1, Timer2))"
    using held_note_pulse [where v = 5 and g = "gen_init (Timer1, Timer2)" and t = 0
        and g' = "gen_init (Timer1, Timer2) \<lparr> current_state_g := False, pulses := [(0, 0)] \<rparr>"
        and h = "gen_init (Timer1, Timer2)"
        and c = "\<lparr> type_c = ''note_on'', time = 0, tempo = 0, timer_c = 1, note_c = 69, volume = 10 \<rparr>"
        and h' = "gen_init (Timer1 \<lparr> top_c := 36364, duty := 320 \<rparr>, Timer2)"] a
    by simp
  ultimately show ?thesis
    using u a by simp
qed

text \<open>The single note-on, on the timers as constructed: the pulse list is empty.\<close>

theorem note_on_alone_counterexample:
  "generate_logic_signal note_on_alone 1 (Timer1, Timer2) =
     Some (Inr ([], (Timer1 \<lparr> top_c := 36364, duty := 320 \<rparr>, Timer2)))"
  by (simp add: run_defs consts_defs Timer1_eq Timer2_eq note_on_alone_def
      cong: sum.case_cong_weak option.case_cong_weak)

section \<open>The order of the pulses\<close>

lemma pulse_times_snoc: "pulse_times (ps @ [(a, b)]) = pulse_times ps @ [a, b]"
  by (simp add: pulse_times_def)

lemma timer_ready_set: "timer_ready tm c \<Longrightarrow> timer_set tm"
  by (simp add: timer_ready_def timer_set_def)

lemma update_ready:
  assumes "timer_set tm" and "update tm t = Inr tm'"
  shows "timer_ready tm' t"
proof -
  from assms have nz: "top_c tm \<noteq> 0" and pos: "0 < top_c tm"
    by (auto simp: update_def timer_set_def Let_def split: if_splits)
  let ?c = "current tm + py_round ((t - current_t tm) * ARDUINO_FREQ / of_int (prescale tm))"
  from assms nz have tm': "tm' = tm \<lparr> current := ?c - top_c tm * py_int (of_int ?c / of_int (top_c tm)), current_t := t \<rparr>"
    by (auto simp: update_def timer_set_def Let_def split: if_splits)
  have "\<bar>?c - top_c tm * py_int (of_int ?c / of_int (top_c tm))\<bar> < top_c tm"
    using pos by (rule py_int_rem_bounds)
  then show ?thesis
    using assms(1) pos by (simp add: tm' timer_ready_def timer_set_def)
qed

lemma next_change_ge:
  assumes "timer_ready tm c"
  shows "c \<le> next_change tm"
proof -
  have "0 \<le> of_int (duty tm - current tm) * of_int (prescale tm) / ARDUINO_FREQ" if "current tm < duty tm"
    using that assms by (simp add: timer_ready_def ARDUINO_FREQ_def)
  moreover have "0 \<le> of_int (top_c tm - current tm) * of_int (prescale tm) / ARDUINO_FREQ"
    using assms by (simp add: timer_ready_def ARDUINO_FREQ_def)
  ultimately show ?thesis
    using assms by (auto simp: next_change_def current_state_def timer_ready_def)
qed

lemma MAX_PULSE_LENGTH_nonneg: "0 \<le> MAX_PULSE_LENGTH"
  by (simp add: consts_defs)

lemma update_state_ordered:
  assumes ord: "pulses_ordered g" and le: "current_t_g g \<le> t"
    and upd: "update_state g t = Inr g'"
  shows "pulses_ordered g'"
proof -
  from upd obtain t1 t2 where u1: "update (timer1 g) t = Inr t1" and u2: "update (timer2 g) t = Inr t2"
    by (auto simp: update_state_def split: sum.splits)
  let ?new = "current_state t1 \<or> current_state t2"
  from ord have srt: "sorted (pulse_times (pulses g))"
    and st: "current_pulse_start g \<le> current_t_g g"
    and bd: "\<forall>x \<in> set (pulse_times (pulses g)).
        x \<le> (if current_state_g g then current_pulse_start g else current_t_g g)"
    by (simp_all add: pulses_ordered_def)
  consider (same) "?new = current_state_g g" | (rise) "?new" "\<not> current_state_g g"
    | (fall) "\<not> ?new" "current_state_g g"
    by blast
  then show ?thesis
  proof cases
    case same
    then have g': "g' = g \<lparr> timer1 := t1, timer2 := t2, current_t_g := t \<rparr>"
      using upd u1 u2 by (auto simp: update_state_def Let_def)
    show ?thesis
      using srt st bd le by (auto simp: g' pulses_ordered_def)
  next
    case rise
    then have g': "g' = g \<lparr> timer1 := t1, timer2 := t2, current_t_g := t,
                            current_state_g := True, current_pulse_start := t \<rparr>"
      using upd u1 u2 by (auto simp: update_state_def Let_def)
    show ?thesis
      using srt st bd le rise by (auto simp: g' pulses_ordered_def)
  next
    case fall
    let ?b = "min (current_pulse_start g + MAX_PULSE_LENGTH) t"
    from fall have g': "g' = g \<lparr> timer1 := t1, timer2 := t2, current_t_g := t,
                            current_state_g := False,
                            pulses := pulses g @ [(current_pulse_start g, ?b)] \<rparr>"
      using upd u1 u2 by (auto simp: update_state_def Let_def)
    have ab: "current_pulse_start g \<le> ?b"
      using st le MAX_PULSE_LENGTH_nonneg by simp
    have bt: "?b \<le> t" by simp
    have "sorted (pulse_times (pulses g) @ [current_pulse_start g, ?b])"
      using srt bd fall ab by (auto simp: sorted_append)
    moreover have "\<forall>x \<in> set (pulse_times (pulses g) @ [current_pulse_start g, ?b]). x \<le> t"
      using bd fall st le by auto
    ultimately show ?thesis
      using st le by (simp add: g' pulses_ordered_def pulse_times_snoc)
  qed
qed

lemma update_state_frame:
  assumes "update_state g t = Inr g'"
  shows "current_t_g g' = t \<and> last_cmd_t g' = last_cmd_t g \<and> current_tempo g' = current_tempo g"
  using assms by (auto simp: update_state_def Let_def split: sum.splits if_splits)

lemma update_state_timers:
  assumes "update_state g t = Inr g'"
  shows "update (timer1 g) t = Inr (timer1 g') \<and> update (timer2 g) t = Inr (timer2 g')"
  using assms by (auto simp: update_state_def Let_def split: sum.splits if_splits)

lemma update_state_ready:
  assumes "timer_set (timer1 g)" and "timer_set (timer2 g)" and "pulses_ordered g"
    and "current_t_g g \<le> t" and "update_state g t = Inr g'"
  shows "gen_ready g'"
  using assms update_state_frame [OF assms(5)] update_state_timers [OF assms(5)]
  by (simp add: gen_ready_def update_ready update_state_ordered)

lemma advance_ready:
  assumes ret: "advance g cmd_t = Some (Inr g')"
    and start: "gen_ready g" "current_t_g g \<le> cmd_t"
  shows "gen_ready g' \<and> current_t_g g' = cmd_t \<and> last_cmd_t g' = last_cmd_t g \<and>
         current_tempo g' = current_tempo g"
proof -
  let ?P = "\<lambda>g c r. \<forall>g'. gen_ready g \<longrightarrow> current_t_g g \<le> c \<longrightarrow> r = Inr g' \<longrightarrow>
      gen_ready g' \<and> current_t_g g' = c \<and> last_cmd_t g' = last_cmd_t g \<and>
      current_tempo g' = current_tempo g"
  have "?P g cmd_t r" if "advance g cmd_t = Some r" for r
  proof (rule advance.raw_induct [where P = ?P, OF _ that])
    fix f g c r
    assume IH: "\<And>g c r. f g c = Some r \<Longrightarrow> ?P g c r"
      and eq: "(if current_t_g g < c
          then (case update_state g
                   (if min (next_change (timer1 g)) (next_change (timer2 g)) < c
                    then min (next_change (timer1 g)) (next_change (timer2 g))
                    else c) of
              Inl e \<Rightarrow> Some (Inl e)
            | Inr g' \<Rightarrow> f g' c)
          else Some (Inr g)) = Some r"
    show "?P g c r"
    proof (intro allI impI)
      fix g'
      assume rdy: "gen_ready g" and le: "current_t_g g \<le> c" and r: "r = Inr g'"
      let ?t = "if min (next_change (timer1 g)) (next_change (timer2 g)) < c
                    then min (next_change (timer1 g)) (next_change (timer2 g))
                    else c"
      show "gen_ready g' \<and> current_t_g g' = c \<and> last_cmd_t g' = last_cmd_t g \<and>
            current_tempo g' = current_tempo g"
      proof (cases "current_t_g g < c")
        case False
        with eq r le rdy show ?thesis by auto
      next
        case True
        show ?thesis
        proof (cases "update_state g ?t")
          case (Inl e)
          with True eq r show ?thesis by auto
        next
          case (Inr g1)
          with True eq have f: "f g1 c = Some r" by simp
          have "current_t_g g \<le> next_change (timer1 g)" "current_t_g g \<le> next_change (timer2 g)"
            using rdy by (simp_all add: gen_ready_def next_change_ge)
          then have t_ge: "current_t_g g \<le> ?t" and t_le: "?t \<le> c"
            using True by auto
          have "timer_set (timer1 g)" "timer_set (timer2 g)" "pulses_ordered g"
            using rdy by (auto simp: gen_ready_def intro: timer_ready_set)
          then have rdy1: "gen_ready g1"
            using t_ge Inr by (rule update_state_ready)
          have fr: "current_t_g g1 = ?t" "last_cmd_t g1 = last_cmd_t g" "current_tempo g1 = current_tempo g"
            using update_state_frame [OF Inr] by simp_all
          from IH [OF f] rdy1 fr(1) t_le r
          have "gen_ready g' \<and> current_t_g g' = c \<and> last_cmd_t g' = last_cmd_t g1 \<and>
            current_tempo g' = current_tempo g1"
            by simp
          then show ?thesis by (simp add: fr)
        qed
      qed
    qed
  qed
  from this [OF ret] start show ?thesis by simp
qed

lemma get_midi_freq_Inr:
  assumes "get_midi_freq n = Inr f"
  shows "f = MIDI_BASE_FREQ * (2 powr (of_int (n - MIDI_BASE_NOTE) / 12))" and "0 < f"
  using assms by (auto simp: get_midi_freq_def Let_def MIDI_BASE_FREQ_def split: if_splits)

lemma next_prescale_Inr:
  "next_prescale mx f vs = Inr p \<Longrightarrow>
     p \<in> set vs \<and> mx * p \<noteq> 0 \<and> ARDUINO_FREQ / of_int (mx * p) < f"
  by (induction vs) (auto split: if_splits)

lemma set_note_set:
  assumes "timer_set tm" and "set_note tm n v = Inr tm'"
  shows "timer_set tm'"
proof -
  from assms(2) obtain f where f: "get_midi_freq n = Inr f"
    by (auto simp: set_note_def split: sum.splits)
  show ?thesis
  proof (cases "f < min_freq tm")
    case True
    with assms f show ?thesis by (simp add: set_note_def)
  next
    case False
    with assms(2) f obtain p where p: "next_prescale (max_c tm) f (prescale_values tm) = Inr p"
      and tm': "prescale tm' = p" "top_c tm' = py_round (ARDUINO_FREQ / (of_int p * f))"
        "prescale_values tm' = prescale_values tm"
      by (auto simp: set_note_def Let_def split: sum.splits if_splits)
    from next_prescale_Inr [OF p] assms(1) have pos: "0 < p"
      by (auto simp: timer_set_def)
    then have "0 \<le> ARDUINO_FREQ / (of_int p * f)"
      using get_midi_freq_Inr(2) [OF f] by (simp add: ARDUINO_FREQ_def)
    then have "0 \<le> top_c tm'"
      unfolding tm' by (rule py_round_nonneg)
    with pos assms(1) show ?thesis
      by (simp add: timer_set_def tm')
  qed
qed

lemma set_off_set: "timer_set tm \<Longrightarrow> timer_set (set_off tm)"
  by (simp add: timer_set_def set_off_def)

lemma apply_cmd_set:
  assumes "timer_set (timer1 g)" and "timer_set (timer2 g)" and "apply_cmd g c = Inr g'"
  shows "timer_set (timer1 g') \<and> timer_set (timer2 g')"
  using assms
  by (auto simp: apply_cmd_def set_off_set split: sum.splits if_splits dest: set_note_set)

lemma apply_cmd_ordered:
  assumes "apply_cmd g c = Inr g'" and "pulses_ordered g"
  shows "pulses_ordered g'"
  using apply_cmd_frame [OF assms(1)] assms(2) by (auto simp: pulses_ordered_def split: if_splits)

lemma apply_cmd_tempo:
  assumes "apply_cmd g c = Inr g'"
  shows "current_tempo g' = tempo c \<or> current_tempo g' = current_tempo g"
  using assms by (auto simp: apply_cmd_def split: sum.splits if_splits)

lemma gen_ready_last_cmd_t [simp]: "gen_ready (g \<lparr> last_cmd_t := x \<rparr>) = gen_ready g"
  by (simp add: gen_ready_def pulses_ordered_def)

lemma cmd_step_synced:
  assumes inv: "gen_synced g" and c: "0 \<le> time c" "0 \<le> tempo c" and tpb: "0 < tpb"
    and ret: "cmd_step tpb g c = Some (Inr g')"
  shows "gen_synced g'"
proof -
  let ?cmd_t = "last_cmd_t g + of_int (time c * current_tempo g) / (1000000 * of_int tpb)"
  from ret obtain g1 g2 where
    a: "advance (g \<lparr> last_cmd_t := ?cmd_t \<rparr>) ?cmd_t = Some (Inr g1)"
    and b: "apply_cmd g1 c = Inr g2"
    and u: "update_state g2 ?cmd_t = Inr g'"
    by (auto simp: cmd_step_def Let_def split: if_splits option.splits sum.splits)
  have "0 \<le> time c * current_tempo g"
    using inv c(1) by (simp add: gen_synced_def)
  then have "(0::real) \<le> of_int (time c * current_tempo g)"
    by (simp only: of_int_0_le_iff)
  moreover have "(0::real) < 1000000 * of_int tpb"
    using tpb by simp
  ultimately have "0 \<le> (of_int (time c * current_tempo g) :: real) / (1000000 * of_int tpb)"
    by (rule divide_nonneg_pos)
  then have le: "current_t_g (g \<lparr> last_cmd_t := ?cmd_t \<rparr>) \<le> ?cmd_t"
    using inv by (simp add: gen_synced_def)
  have rdy0: "gen_ready (g \<lparr> last_cmd_t := ?cmd_t \<rparr>)"
    using inv by (simp add: gen_synced_def)
  from advance_ready [OF a rdy0 le]
  have g1: "gen_ready g1" "current_t_g g1 = ?cmd_t" "last_cmd_t g1 = ?cmd_t"
    "current_tempo g1 = current_tempo g"
    by simp_all
  have "pulses_ordered g1"
    using g1(1) by (simp add: gen_ready_def)
  with b have "pulses_ordered g2"
    by (rule apply_cmd_ordered)
  with apply_cmd_frame [OF b] g1(2,3)
  have g2: "pulses_ordered g2" "current_t_g g2 = ?cmd_t" "last_cmd_t g2 = ?cmd_t"
    by simp_all
  have "timer_set (timer1 g1)" "timer_set (timer2 g1)"
    using g1(1) by (auto simp: gen_ready_def intro: timer_ready_set)
  then have "timer_set (timer1 g2) \<and> timer_set (timer2 g2)"
    using b by (rule apply_cmd_set)
  then have set2: "timer_set (timer1 g2)" "timer_set (timer2 g2)"
    by simp_all
  have tempo2: "0 \<le> current_tempo g2"
    using apply_cmd_tempo [OF b] g1(4) inv c(2) by (auto simp: gen_synced_def)
  have "gen_ready g'"
    using set2 g2(1) _ u by (rule update_state_ready) (simp add: g2)
  with update_state_frame [OF u] g2 tempo2 show ?thesis
    by (simp add: gen_synced_def)
qed

lemma run_cmds_synced:
  assumes "run_cmds tpb g cmds = Some (Inr g')" and "gen_synced g"
    and "\<forall>c \<in> set cmds. 0 \<le> time c \<and> 0 \<le> tempo c" and "0 < tpb"
  shows "gen_synced g'"
  using assms
proof (induction cmds arbitrary: g)
  case Nil
  then show ?case by simp
next
  case (Cons c cs)
  from Cons.prems(1) obtain g1 where s: "cmd_step tpb g c = Some (Inr g1)"
    and r: "run_cmds tpb g1 cs = Some (Inr g')"
    by (auto split: option.splits sum.splits)
  have "gen_synced g1"
    using Cons.prems(2) _ _ Cons.prems(4) s by (rule cmd_step_synced) (use Cons.prems(3) in simp_all)
  with r Cons.prems(3,4) show ?case
    by (intro Cons.IH) simp_all
qed

subsection \<open>The generator returns\<close>

text \<open>
  Every round of the inner loop moves the cursor to the time of the command or at
  least one clock tick forward, so the loop ends; a run from a ready state returns, a
  pulse list or an exception.
\<close>

lemma next_change_step:
  assumes "timer_ready tm c"
  shows "c + 1 / ARDUINO_FREQ \<le> next_change tm"
proof -
  from assms have ct: "c \<le> current_t tm" and p: "1 \<le> prescale tm" and top: "current tm < top_c tm"
    by (simp_all add: timer_ready_def)
  have step: "1 \<le> (of_int k :: real) * of_int (prescale tm)" if "1 \<le> k" for k :: int
  proof -
    have "1 * 1 \<le> k * prescale tm"
      using that p by (intro mult_mono) simp_all
    then have "(1::real) \<le> of_int (k * prescale tm)"
      by (simp only: mult_1 of_int_1_le_iff)
    then show ?thesis by simp
  qed
  show ?thesis
  proof (cases "current_state tm")
    case True
    then have "1 \<le> duty tm - current tm"
      by (simp add: current_state_def)
    from step [OF this] have "1 / ARDUINO_FREQ \<le> of_int (duty tm - current tm) * of_int (prescale tm) / ARDUINO_FREQ"
      by (simp add: ARDUINO_FREQ_def divide_right_mono)
    with ct True show ?thesis
      by (simp add: next_change_def)
  next
    case False
    from top have "1 \<le> top_c tm - current tm"
      by simp
    from step [OF this] have "1 / ARDUINO_FREQ \<le> of_int (top_c tm - current tm) * of_int (prescale tm) / ARDUINO_FREQ"
      by (simp add: ARDUINO_FREQ_def divide_right_mono)
    with ct False show ?thesis
      by (simp add: next_change_def)
  qed
qed

lemma advance_returns:
  assumes "gen_ready g"
  shows "\<exists>r. advance g cmd_t = Some r"
  using assms
proof (induction "nat \<lceil>(cmd_t - current_t_g g) * ARDUINO_FREQ\<rceil>" arbitrary: g rule: less_induct)
  case less
  show ?case
  proof (cases "current_t_g g < cmd_t")
    case False
    then show ?thesis by (simp add: advance_stop)
  next
    case True
    let ?m = "min (next_change (timer1 g)) (next_change (timer2 g))"
    let ?t = "if ?m < cmd_t then ?m else cmd_t"
    show ?thesis
    proof (cases "update_state g ?t")
      case (Inl e)
      with True show ?thesis by (simp add: advance_run)
    next
      case (Inr g1)
      have m: "current_t_g g + 1 / ARDUINO_FREQ \<le> ?m"
        using less.prems by (simp add: gen_ready_def next_change_step)
      then have t_ge: "current_t_g g \<le> ?t"
        using True by (auto simp: ARDUINO_FREQ_def)
      have "timer_set (timer1 g)" "timer_set (timer2 g)" "pulses_ordered g"
        using less.prems by (auto simp: gen_ready_def intro: timer_ready_set)
      then have rdy1: "gen_ready g1"
        using t_ge Inr by (rule update_state_ready)
      have cur1: "current_t_g g1 = ?t"
        using update_state_frame [OF Inr] by simp
      have pos: "0 < (cmd_t - current_t_g g) * ARDUINO_FREQ"
        using True by (simp add: ARDUINO_FREQ_def)
      have "(cmd_t - ?t) * ARDUINO_FREQ \<le> (cmd_t - current_t_g g) * ARDUINO_FREQ - 1 \<or> ?t = cmd_t"
        using m by (auto simp: ARDUINO_FREQ_def field_simps)
      then have "\<lceil>(cmd_t - ?t) * ARDUINO_FREQ\<rceil> < \<lceil>(cmd_t - current_t_g g) * ARDUINO_FREQ\<rceil>"
      proof
        assume "(cmd_t - ?t) * ARDUINO_FREQ \<le> (cmd_t - current_t_g g) * ARDUINO_FREQ - 1"
        then have "\<lceil>(cmd_t - ?t) * ARDUINO_FREQ\<rceil> \<le> \<lceil>(cmd_t - current_t_g g) * ARDUINO_FREQ - 1\<rceil>"
          by (rule ceiling_mono)
        then show ?thesis by simp
      next
        assume "?t = cmd_t"
        then have "\<lceil>(cmd_t - ?t) * ARDUINO_FREQ\<rceil> = 0" by simp
        moreover have "0 < \<lceil>(cmd_t - current_t_g g) * ARDUINO_FREQ\<rceil>"
          using pos by simp
        ultimately show ?thesis by simp
      qed
      moreover have "0 < \<lceil>(cmd_t - current_t_g g) * ARDUINO_FREQ\<rceil>"
        using pos by simp
      ultimately have "nat \<lceil>(cmd_t - current_t_g g1) * ARDUINO_FREQ\<rceil>
                       < nat \<lceil>(cmd_t - current_t_g g) * ARDUINO_FREQ\<rceil>"
        unfolding cur1 by linarith
      from less.hyps [OF this rdy1] obtain r where "advance g1 cmd_t = Some r"
        by blast
      with True Inr show ?thesis by (simp add: advance_run)
    qed
  qed
qed

lemma cmd_step_returns:
  assumes "gen_ready g"
  shows "\<exists>r. cmd_step tpb g c = Some r"
proof -
  let ?cmd_t = "last_cmd_t g + of_int (time c * current_tempo g) / (1000000 * of_int tpb)"
  have "gen_ready (g \<lparr> last_cmd_t := ?cmd_t \<rparr>)"
    using assms by simp
  from advance_returns [OF this, of ?cmd_t] show ?thesis
    by (auto simp: cmd_step_def Let_def split: option.splits sum.splits)
qed

lemma run_cmds_returns:
  assumes "gen_synced g" and "\<forall>c \<in> set cmds. 0 \<le> time c \<and> 0 \<le> tempo c" and "0 < tpb"
  shows "\<exists>r. run_cmds tpb g cmds = Some r"
  using assms
proof (induction cmds arbitrary: g)
  case Nil
  then show ?case by simp
next
  case (Cons c cs)
  from Cons.prems(1) have "gen_ready g"
    by (simp add: gen_synced_def)
  from cmd_step_returns [OF this, of tpb c] obtain r where r: "cmd_step tpb g c = Some r"
    by blast
  show ?case
  proof (cases r)
    case (Inl e)
    with r show ?thesis by simp
  next
    case (Inr g1)
    have "gen_synced g1"
      using Cons.prems(1) _ _ Cons.prems(3) r [unfolded Inr]
      by (rule cmd_step_synced) (use Cons.prems(2) in simp_all)
    from Cons.IH [OF this _ Cons.prems(3)] Cons.prems(2)
    obtain r' where "run_cmds tpb g1 cs = Some r'"
      by auto
    with r Inr show ?thesis by simp
  qed
qed

text \<open>
  C3. The claim: the pulses are strictly time-ordered, pairwise
  non-overlapping and of strictly positive duration. The first falling edge closes a
  pulse that was never opened, \<open>(0, 0)\<close>, and a pulse opened by a note-on at the
  same instant starts at the same time. What holds, for commands with non-negative
  tick deltas and tempi, a positive number of ticks per beat and timers that are ready
  at time 0 (the constructed ones are): the generator returns, and when it returns a
  pulse list, the times of the pulses, read as start, end, start, end, are in
  ascending order; no pulse ends before it starts and none starts before the previous
  one has ended.
\<close>

theorem pulses_weakly_ordered:
  assumes "\<forall>c \<in> set cmds. 0 \<le> time c \<and> 0 \<le> tempo c" and "0 < ticks_per_beat"
    and "timer_ready t1 0" and "timer_ready t2 0"
  shows "\<exists>r. generate_logic_signal cmds ticks_per_beat (t1, t2) = Some r \<and>
             (\<forall>ps tms'. r = Inr (ps, tms') \<longrightarrow> sorted (pulse_times ps))"
proof -
  have init: "gen_synced (gen_init (t1, t2))"
    using assms(3,4)
    by (simp add: gen_synced_def gen_ready_def pulses_ordered_def gen_init_def pulse_times_def)
  from run_cmds_returns [OF init assms(1,2)]
  obtain r0 where r0: "run_cmds ticks_per_beat (gen_init (t1, t2)) cmds = Some r0"
    by blast
  show ?thesis
  proof (cases r0)
    case (Inl e)
    with r0 show ?thesis
      by (simp add: generate_logic_signal_def)
  next
    case (Inr g)
    with r0 init have "gen_synced g"
      using assms(1,2) by (intro run_cmds_synced [of ticks_per_beat _ cmds g]) simp_all
    then have "sorted (pulse_times (pulses g))"
      by (simp add: gen_synced_def gen_ready_def pulses_ordered_def)
    with r0 Inr show ?thesis
      by (simp add: generate_logic_signal_def)
  qed
qed

theorem pulses_weakly_ordered_witness:
  "sorted (pulse_times [(0, 0), (0, 1 / 50000)])"
proof -
  have "\<forall>c \<in> set held_note. 0 \<le> time c \<and> 0 \<le> tempo c"
    by (simp add: held_note_def)
  moreover have "timer_ready Timer1 0" "timer_ready Timer2 0"
    by (simp_all add: timer_ready_def Timer1_eq Timer2_eq)
  ultimately show ?thesis
    using pulses_weakly_ordered [of held_note 1 Timer1 Timer2] held_note_run
    by auto
qed

text \<open>
  The held note, on the timers as constructed: the first pulse has no duration and
  the second starts when the first does.
\<close>

theorem zero_length_pulse_counterexample:
  "generate_logic_signal held_note 1 (Timer1, Timer2) =
     Some (Inr ([(0, 0), (0, 1 / 50000)],
       (\<lparr> max_c = 65536, prescale_values = [1, 8, 64, 256, 1024], prescale = 1,
           top_c = 36364, min_freq = 15625 / 65536, duty = 320, current = 400,
           current_t = 1 / 40000 \<rparr>,
        \<lparr> max_c = 256, prescale_values = [1, 8, 32, 64, 128, 256, 1024], prescale = 1,
           top_c = 256, min_freq = 15625 / 256, duty = 0, current = 144,
           current_t = 1 / 40000 \<rparr>))) \<and>
   \<not> pulses_strict [(0, 0), (0, 1 / 50000)]"
  using held_note_run by (simp add: pulses_strict_def)

section \<open>Two conversions in one process\<close>

lemma find_pulse_less: "i < length ps \<Longrightarrow> find_pulse ps i t < length ps"
proof (induction ps i t rule: find_pulse.induct)
  case (1 ps i t)
  then show ?case by (subst find_pulse.simps) auto
qed

lemma envelope_not_IndexError: "envelope t s e \<noteq> Inl IndexError"
proof -
  have ramp: "envelope e s e \<noteq> Inl IndexError"
    by (subst envelope.simps) simp
  show ?thesis
    using ramp by (subst envelope.simps) (auto simp: Let_def split: sum.splits option.splits)
qed

lemma sample_loop_not_IndexError:
  "i < length ps \<Longrightarrow> sample_loop ps last_t i t frames \<noteq> Inl IndexError"
proof (induction ps last_t i t frames rule: sample_loop.induct)
  case (1 ps last_t i t frames)
  have less: "find_pulse ps i t < length ps"
    using "1.prems" by (rule find_pulse_less)
  then have vol: "sample_volume ps (find_pulse ps i t) t \<noteq> Inl IndexError"
    by (simp add: sample_volume_def Let_def envelope_not_IndexError)
  show ?case
  proof (cases "t \<le> last_t")
    case False
    then show ?thesis by (subst sample_loop.simps) simp
  next
    case True
    show ?thesis
    proof (cases "sample_volume ps (find_pulse ps i t) t")
      case (Inl e)
      with vol True show ?thesis by (subst sample_loop.simps) auto
    next
      case (Inr v)
      show ?thesis
      proof (cases "pack_h v")
        case (Inl e)
        then have "e = StructError" by (auto simp: pack_h_def split: option.splits if_splits)
        with Inl Inr True show ?thesis by (subst sample_loop.simps) simp
      next
        case (Inr n)
        from "1.IH" [OF True \<open>sample_volume ps (find_pulse ps i t) t = Inr v\<close> Inr less]
        show ?thesis
          using True \<open>sample_volume ps (find_pulse ps i t) t = Inr v\<close> Inr
          by (subst sample_loop.simps) simp
      qed
    qed
  qed
qed

lemma update_same_config: "update tm t = Inr tm' \<Longrightarrow> same_config tm' tm"
  by (auto simp: update_def same_config_def Let_def split: if_splits)

lemma set_note_same_config: "set_note tm n v = Inr tm' \<Longrightarrow> same_config tm' tm"
  by (auto simp: set_note_def same_config_def Let_def split: if_splits sum.splits)

lemma set_off_same_config: "same_config (set_off tm) tm"
  by (simp add: set_off_def same_config_def)

lemma same_config_trans: "same_config a b \<Longrightarrow> same_config b c \<Longrightarrow> same_config a c"
  by (simp add: same_config_def)

lemma same_config_refl: "same_config a a"
  by (simp add: same_config_def)

lemma update_state_same_config:
  assumes "update_state g t = Inr g'"
  shows "same_config (timer1 g') (timer1 g) \<and> same_config (timer2 g') (timer2 g)"
  using assms
  by (auto simp: update_state_def Let_def split: sum.splits if_splits dest: update_same_config)

lemma apply_cmd_same_config:
  assumes "apply_cmd g c = Inr g'"
  shows "same_config (timer1 g') (timer1 g) \<and> same_config (timer2 g') (timer2 g)"
  using assms
  by (auto simp: apply_cmd_def same_config_refl set_off_same_config
      split: sum.splits if_splits dest: set_note_same_config)

lemma update_current_t: "update tm t = Inr tm' \<Longrightarrow> current_t tm' = t"
  by (auto simp: update_def Let_def split: if_splits)

lemma update_state_clock:
  assumes "update_state g t = Inr g'"
  shows "current_t (timer1 g') = t \<and> current_t (timer2 g') = t \<and>
         last_cmd_t g' = last_cmd_t g \<and> current_tempo g' = current_tempo g"
  using assms
  by (auto simp: update_state_def Let_def split: sum.splits if_splits dest: update_current_t)

lemma apply_cmd_clock:
  assumes "apply_cmd g c = Inr g'"
  shows "last_cmd_t g' = last_cmd_t g \<and>
         current_tempo g' =
           (if type_c c \<in> set [''begin_program'', ''set_tempo''] then tempo c
            else current_tempo g)"
  using assms by (auto simp: apply_cmd_def split: sum.splits if_splits)

lemma cmd_step_clock:
  assumes ret: "cmd_step tpb g c = Some (Inr g')"
  shows "last_cmd_t g' = last_cmd_t g + of_int (time c * current_tempo g) / (1000000 * of_int tpb) \<and>
         current_tempo g' =
           (if type_c c \<in> set [''begin_program'', ''set_tempo''] then tempo c
            else current_tempo g) \<and>
         current_t (timer1 g') = last_cmd_t g' \<and> current_t (timer2 g') = last_cmd_t g'"
proof -
  let ?cmd_t = "last_cmd_t g + of_int (time c * current_tempo g) / (1000000 * of_int tpb)"
  from ret obtain g1 g2 where
    a: "advance (g \<lparr> last_cmd_t := ?cmd_t \<rparr>) ?cmd_t = Some (Inr g1)"
    and b: "apply_cmd g1 c = Inr g2"
    and u: "update_state g2 ?cmd_t = Inr g'"
    by (auto simp: cmd_step_def Let_def split: if_splits option.splits sum.splits)
  have "last_cmd_t g1 = ?cmd_t \<and> current_tempo g1 = current_tempo g"
    by (rule advance_invariant
        [where Q = "\<lambda>h. last_cmd_t h = ?cmd_t \<and> current_tempo h = current_tempo g", OF a])
      (auto dest: update_state_clock)
  with apply_cmd_clock [OF b] update_state_clock [OF u] show ?thesis
    by simp
qed

lemma run_cmds_clock:
  assumes "run_cmds tpb g cmds = Some (Inr g')" and "cmds \<noteq> []"
  shows "current_t (timer1 g') = last_event_time tpb (last_cmd_t g) (current_tempo g) cmds \<and>
         current_t (timer2 g') = last_event_time tpb (last_cmd_t g) (current_tempo g) cmds"
  using assms
proof (induction cmds arbitrary: g)
  case Nil
  then show ?case by simp
next
  case (Cons c cs)
  from Cons.prems(1) obtain g1 where s: "cmd_step tpb g c = Some (Inr g1)"
    and r: "run_cmds tpb g1 cs = Some (Inr g')"
    by (auto split: option.splits sum.splits)
  note clock = cmd_step_clock [OF s]
  show ?case
  proof (cases "cs = []")
    case True
    with r have "g' = g1" by simp
    with clock True show ?thesis by simp
  next
    case False
    from Cons.IH [OF r False] clock show ?thesis
      by simp
  qed
qed

lemma generate_wav_of_pulses:
  assumes "generate_logic_signal cmds tpb tms = Some (Inr (ps, tms'))"
  shows "written (generate_wav cmds tpb tms) =
           (if ps = [] then Some (Inl IndexError)
            else Some (map_sum id id
                   (sample_loop ps (snd (last ps) + LAST_PULSE_OFF_TIME) 0
                      (- FIRST_PULSE_ON_TIME) [])))"
  using assms by (auto simp: generate_wav_def written_def split: sum.splits)

text \<open>
  C9. The claim: two runs of the conversion on the same stream give the
  same samples, each run having fresh timers. The two timers are module-level objects:
  a conversion mutates them and nothing resets them, so a run starts from what the run
  before left. What holds, for a stream that is not empty: when the generator returns,
  it leaves both timers with \<open>current_t\<close> at the time of the last command of the
  stream and with the configuration (\<open>max\<close>, the candidate prescalers, the minimal
  frequency) they had; and the frames \<^verbatim>\<open>generate_wav\<close> writes are computed from the
  pulse list alone, so that two conversions of the stream whose generators return the
  same pulses write the same frames or raise the same exception, whatever state their
  timers were in.
\<close>

theorem conversion_leaves_timers:
  assumes "generate_logic_signal cmds ticks_per_beat (t1, t2) = Some (Inr (ps, (t1', t2')))"
    and "cmds \<noteq> []"
  shows "current_t t1' = last_event_time ticks_per_beat 0 0 cmds \<and>
         current_t t2' = last_event_time ticks_per_beat 0 0 cmds \<and>
         same_config t1' t1 \<and> same_config t2' t2 \<and>
         (generate_logic_signal cmds ticks_per_beat tms = Some (Inr (ps, tms')) \<longrightarrow>
            written (generate_wav cmds ticks_per_beat tms) =
            written (generate_wav cmds ticks_per_beat (t1, t2)))"
proof -
  from assms(1) obtain g where r: "run_cmds ticks_per_beat (gen_init (t1, t2)) cmds = Some (Inr g)"
    and g: "t1' = timer1 g" "t2' = timer2 g"
    by (auto simp: generate_logic_signal_def split: option.splits sum.splits)
  have "same_config (timer1 g) t1 \<and> same_config (timer2 g) t2"
  proof (rule run_cmds_invariant
      [where Q = "\<lambda>g. same_config (timer1 g) t1 \<and> same_config (timer2 g) t2", OF r])
    show "same_config (timer1 (gen_init (t1, t2))) t1 \<and>
          same_config (timer2 (gen_init (t1, t2))) t2"
      by (simp add: gen_init_def same_config_refl)
  qed (auto dest!: update_state_same_config apply_cmd_same_config intro: same_config_trans)
  moreover from run_cmds_clock [OF r assms(2)]
  have "current_t (timer1 g) = last_event_time ticks_per_beat 0 0 cmds"
    "current_t (timer2 g) = last_event_time ticks_per_beat 0 0 cmds"
    by (simp_all add: gen_init_def)
  moreover have "written (generate_wav cmds ticks_per_beat tms) =
            written (generate_wav cmds ticks_per_beat (t1, t2))"
    if "generate_logic_signal cmds ticks_per_beat tms = Some (Inr (ps, tms'))"
    using generate_wav_of_pulses [OF that] generate_wav_of_pulses [OF assms(1)] by simp
  ultimately show ?thesis
    by (simp add: g)
qed

theorem conversion_leaves_timers_witness:
  "current_t Timer1_off = 1 / 40000 \<and> current_t Timer2_off = 1 / 40000 \<and>
   last_event_time 1 0 0 note_and_off = 1 / 40000 \<and>
   same_config Timer1_off Timer1 \<and> same_config Timer2_off Timer2 \<and>
   written (generate_wav note_and_off 1 (Timer1_off, Timer2_off)) =
   written (generate_wav note_and_off 1 (Timer1, Timer2))"
proof -
  have "note_and_off \<noteq> []"
    by (simp add: note_and_off_def)
  moreover have "last_event_time 1 0 0 note_and_off = 1 / 40000"
    by (simp add: note_and_off_def)
  ultimately show ?thesis
    using conversion_leaves_timers [OF note_and_off_first_run, where tms = "(Timer1_off, Timer2_off)"
        and tms' = "(Timer1_off, Timer2_off)"] note_and_off_second_run
    by simp
qed

text \<open>
  The stream \<open>two_notes\<close>, converted twice. The first run, on the timers as
  constructed, returns two pulses and leaves both timers with a note on. The second
  run starts from these timers: its output is high from the first command to the
  last, it returns no pulse, and \<^verbatim>\<open>generate_wav\<close> raises \<^verbatim>\<open>IndexError\<close>, which
  the first run does not.
\<close>

theorem second_conversion_counterexample:
  "generate_logic_signal two_notes 1 (Timer1, Timer2) =
     Some (Inr ([(0, 0), (0, 1 / 50000)], (Timer1_left, Timer2_left))) \<and>
   generate_logic_signal two_notes 1 (Timer1_left, Timer2_left) =
     Some (Inr ([], (Timer1_left, Timer2_left \<lparr> current := - 1 \<rparr>))) \<and>
   generate_wav two_notes 1 (Timer1_left, Timer2_left) = Some (Inl IndexError) \<and>
   generate_wav two_notes 1 (Timer1, Timer2) \<noteq> Some (Inl IndexError)"
proof -
  have "generate_wav two_notes 1 (Timer1_left, Timer2_left) = Some (Inl IndexError)"
    by (simp add: generate_wav_def two_notes_second_run)
  moreover have "generate_wav two_notes 1 (Timer1, Timer2) \<noteq> Some (Inl IndexError)"
    using sample_loop_not_IndexError [of 0 "[(0, 0), (0, 1 / 50000)]"]
    by (auto simp: generate_wav_def two_notes_first_run split: sum.splits)
  ultimately show ?thesis
    using two_notes_first_run two_notes_second_run by simp
qed

section \<open>Selecting a note\<close>

subsection \<open>No note has exactly the minimal frequency\<close>

text \<open>
  \<^verbatim>\<open>set_note\<close> returns early below the minimal frequency and asks for a prescaler
  whose slowest frequency is strictly below the target: a target equal to the minimal
  frequency would find none. The frequency of a note is 440 times a twelfth root of a
  power of two, the minimal frequency is 16000000 divided by an integer; their
  equality makes the twelfth power of 400000 times a power of two a multiple of 11,
  which it is not.
\<close>

lemma eleven_not_dvd: "\<not> (11::int) dvd 400000 ^ 12 * 2 ^ m"
proof
  assume d: "(11::int) dvd 400000 ^ 12 * 2 ^ m"
  have "coprime (11::int) 2"
    by (simp add: coprime_iff_gcd_eq_1 gcd_non_0_int)
  then have "coprime (11::int) (2 ^ m)"
    by simp
  with d have "(11::int) dvd 400000 ^ 12"
    by (simp add: coprime_dvd_mult_left_iff)
  then show False
    by simp
qed

lemma twelfth_power_of_semitone:
  "(2 powr (of_int k / 12)) ^ 12 = (2::real) powr of_int k"
  by (simp add: powr_power)

lemma midi_freq_not_clock_fraction:
  fixes k N :: int
  assumes N: "0 < N"
  shows "440 * (2 powr (of_int k / 12)) \<noteq> (16000000 :: real) / of_int N"
proof
  assume eq: "440 * (2 powr (of_int k / 12)) = (16000000 :: real) / of_int N"
  define x :: real where "x = 2 powr (of_int k / 12)"
  have Npos: "(0::real) < of_int N" using N by simp
  from eq have "440 * x = 16000000 / of_int N"
    by (simp add: x_def)
  then have "x * (11 * of_int N) = 400000"
    using Npos by (simp add: field_simps)
  then have "(x * (11 * of_int N)) ^ 12 = 400000 ^ 12"
    by simp
  then have pw: "x ^ 12 * (11 * of_int N) ^ 12 = 400000 ^ 12"
    by (simp only: power_mult_distrib)
  have x12: "x ^ 12 = 2 powr of_int k"
    unfolding x_def by (rule twelfth_power_of_semitone)
  show False
  proof (cases "0 \<le> k")
    case True
    then have "x ^ 12 = 2 ^ nat k"
      by (simp add: x12 powr_real_of_int)
    with pw have "(2::real) ^ nat k * (11 * of_int N) ^ 12 = 400000 ^ 12"
      by simp
    then have "(of_int (2 ^ nat k * (11 * N) ^ 12) :: real) = of_int (400000 ^ 12)"
      by simp
    then have "2 ^ nat k * (11 * N) ^ 12 = (400000::int) ^ 12"
      by (simp only: of_int_eq_iff)
    then have "(400000::int) ^ 12 * 2 ^ 0 = 11 * (2 ^ nat k * (11 ^ 11 * N ^ 12))"
      by (simp add: power_mult_distrib)
    then have "(11::int) dvd 400000 ^ 12 * 2 ^ 0"
      by (rule dvdI)
    then show False
      using eleven_not_dvd by blast
  next
    case False
    then have "x ^ 12 = inverse (2 ^ nat (- k))"
      by (simp add: x12 powr_real_of_int)
    with pw have "(11 * of_int N) ^ 12 = (400000::real) ^ 12 * 2 ^ nat (- k)"
      by (simp add: field_simps)
    then have "(of_int ((11 * N) ^ 12) :: real) = of_int (400000 ^ 12 * 2 ^ nat (- k))"
      by simp
    then have "(11 * N) ^ 12 = (400000::int) ^ 12 * 2 ^ nat (- k)"
      by (simp only: of_int_eq_iff)
    then have "(400000::int) ^ 12 * 2 ^ nat (- k) = 11 * (11 ^ 11 * N ^ 12)"
      by (simp add: power_mult_distrib)
    then have "(11::int) dvd 400000 ^ 12 * 2 ^ nat (- k)"
      by (rule dvdI)
    then show False
      using eleven_not_dvd by blast
  qed
qed

subsection \<open>The prescaler that is chosen\<close>

lemma next_prescale_least:
  "sorted vs \<Longrightarrow> next_prescale mx f vs = Inr p \<Longrightarrow> q \<in> set vs \<Longrightarrow>
     ARDUINO_FREQ / of_int (mx * q) < f \<Longrightarrow> p \<le> q"
  by (induction vs) (auto split: if_splits)

lemma next_prescale_exists:
  "\<forall>v \<in> set vs. mx * v \<noteq> 0 \<Longrightarrow> q \<in> set vs \<Longrightarrow> ARDUINO_FREQ / of_int (mx * q) < f \<Longrightarrow>
     \<exists>p. next_prescale mx f vs = Inr p"
  by (induction vs) auto

lemma sorted_last_Max:
  fixes vs :: "int list"
  shows "sorted vs \<Longrightarrow> vs \<noteq> [] \<Longrightarrow> last vs = Max (set vs)"
proof (induction vs)
  case Nil
  then show ?case by simp
next
  case (Cons v vs)
  show ?case
  proof (cases "vs = []")
    case True
    then show ?thesis by simp
  next
    case False
    with Cons have IH: "last vs = Max (set vs)" by simp
    have "v \<le> Max (set vs)"
      using Cons.prems(1) False by (simp add: Max_ge_iff) (meson last_in_set)
    then have "Max (set (v # vs)) = Max (set vs)"
      using False by (simp add: max_absorb2)
    with IH False show ?thesis by simp
  qed
qed

lemma get_midi_freq_in_range:
  assumes "- (2 ^ 1024 - 2 ^ 970) < pitch - 69" and "pitch \<le> 12356"
  shows "get_midi_freq pitch = Inr (440 * 2 powr (of_int (pitch - 69) / 12))"
proof -
  have "\<bar>pitch - 69\<bar> < 2 ^ 1024 - 2 ^ 970"
    using assms by simp
  moreover have "(of_int (pitch - 69) :: real) / 12 < 1024"
    using assms(2) by simp
  ultimately show ?thesis
    by (simp add: get_midi_freq_def int_too_large_def Let_def MIDI_BASE_FREQ_def
        MIDI_BASE_NOTE_def)
qed

lemma intensity_not_too_large:
  assumes "0 \<le> intensity"
  shows "\<not> int_too_large (min intensity MAX_HALF_CYCLES)"
  using assms by (simp add: int_too_large_def MAX_HALF_CYCLES_def)

lemma set_note_cases:
  assumes cfg: "timer_config_ok tm" and f: "get_midi_freq pitch = Inr f"
    and vol: "\<not> int_too_large (min intensity MAX_HALF_CYCLES)"
  shows "(f < min_freq tm \<and> set_note tm pitch intensity = Inr tm) \<or>
         (\<not> f < min_freq tm \<and>
          (\<exists>p. next_prescale (max_c tm) f (prescale_values tm) = Inr p \<and>
              set_note tm pitch intensity =
                Inr (tm \<lparr> prescale := p,
                  top_c := py_round (ARDUINO_FREQ / (of_int p * f)),
                  current := (if py_round (ARDUINO_FREQ / (of_int p * f)) \<le> current tm
                              then 0 else current tm),
                  duty := (if py_round (of_int (min intensity MAX_HALF_CYCLES) * HALF_CYCLE_LENGTH
                                         * ARDUINO_FREQ / of_int p) = 0 then 1
                           else py_round (of_int (min intensity MAX_HALF_CYCLES) * HALF_CYCLE_LENGTH
                                         * ARDUINO_FREQ / of_int p)) \<rparr>)))"
proof (cases "f < min_freq tm")
  case True
  then show ?thesis by (simp add: set_note_def f)
next
  case False
  let ?vs = "prescale_values tm"
  from cfg have mx: "0 < max_c tm" and ne: "?vs \<noteq> []"
    and pos: "\<forall>v \<in> set ?vs. 0 < v"
    and mf: "min_freq tm = ARDUINO_FREQ / of_int (last ?vs * max_c tm)"
    by (simp_all add: timer_config_ok_def)
  have lpos: "0 < last ?vs * max_c tm"
    using pos ne mx by simp
  have "f \<noteq> ARDUINO_FREQ / of_int (last ?vs * max_c tm)"
    using midi_freq_not_clock_fraction [OF lpos, of "pitch - 69"] get_midi_freq_Inr(1) [OF f]
    by (simp add: consts_defs)
  with False mf have lt: "ARDUINO_FREQ / of_int (max_c tm * last ?vs) < f"
    by (simp add: mult.commute)
  have nz: "\<forall>v \<in> set ?vs. max_c tm * v \<noteq> 0"
    using pos mx by auto
  from next_prescale_exists [OF nz _ lt] ne
  obtain p where p: "next_prescale (max_c tm) f ?vs = Inr p"
    by auto
  from next_prescale_Inr [OF p] pos have "0 < p"
    by simp
  then have pf: "of_int p * f \<noteq> 0"
    using get_midi_freq_Inr(2) [OF f] by simp
  show ?thesis
    using False pf p vol by (simp add: set_note_def Let_def f)
qed

text \<open>
  C4. The claim: for every note and intensity, \<^verbatim>\<open>set_note\<close> is a no-op
  below the slowest frequency of the timer and otherwise selects prescaler, period,
  counter and duty as described. From pitch 12357 on the power in
  \<^verbatim>\<open>get_midi_freq\<close> overflows and \<^verbatim>\<open>set_note\<close> raises \<^verbatim>\<open>OverflowError\<close>. What
  holds, for a timer with the configuration of one of the two timers of the program,
  a non-negative intensity and a pitch up to 12356 (and above the negative bound of
  the conversion to a float): with \<open>f = 440 \<cdot> 2 powr ((pitch - 69) / 12)\<close>,
  \<^verbatim>\<open>set_note\<close> leaves the timer as it is when \<open>f\<close> is below
  \<open>16000000 / (max \<cdot> largest prescaler)\<close>; otherwise it selects the smallest
  candidate prescaler \<open>p\<close> with \<open>16000000 / (max \<cdot> p)\<close> below \<open>f\<close>, sets
  \<open>top\<close> to \<open>round (16000000 / (p \<cdot> f))\<close>, resets the counter to 0 if it is not
  below the new \<open>top\<close>, and sets the duty to the tick count of the capped pulse
  width, at least 1.
\<close>

theorem set_note_selects:
  assumes prof: "same_config tm Timer1 \<or> same_config tm Timer2" and vol: "0 \<le> intensity"
    and lo: "- (2 ^ 1024 - 2 ^ 970) < pitch - 69" and hi: "pitch \<le> 12356"
  shows "set_note tm pitch intensity =
     (let f = 440 * 2 powr (of_int (pitch - 69) / 12)
      in if f < ARDUINO_FREQ / of_int (max_c tm * Max (set (prescale_values tm))) then Inr tm
         else
           let p = Min {v \<in> set (prescale_values tm). ARDUINO_FREQ / of_int (max_c tm * v) < f};
               period = py_round (ARDUINO_FREQ / (of_int p * f));
               width = of_int (min intensity MAX_HALF_CYCLES) * HALF_CYCLE_LENGTH
           in Inr (tm \<lparr> prescale := p, top_c := period,
                         current := (if period \<le> current tm then 0 else current tm),
                         duty := max 1 (py_round (width * ARDUINO_FREQ / of_int p)) \<rparr>))"
proof -
  let ?f = "440 * 2 powr (of_int (pitch - 69) / 12) :: real"
  let ?vs = "prescale_values tm"
  let ?S = "{v \<in> set ?vs. ARDUINO_FREQ / of_int (max_c tm * v) < ?f}"
  have f: "get_midi_freq pitch = Inr ?f"
    using lo hi by (rule get_midi_freq_in_range)
  have cfg: "timer_config_ok tm"
    using prof by (rule profile_config_ok)
  from cfg have mx: "0 < max_c tm" and ne: "?vs \<noteq> []" and srt: "sorted ?vs"
    and pos: "\<forall>v \<in> set ?vs. 0 < v"
    and mf: "min_freq tm = ARDUINO_FREQ / of_int (last ?vs * max_c tm)"
    by (simp_all add: timer_config_ok_def)
  have lastmax: "last ?vs = Max (set ?vs)"
    using srt ne by (rule sorted_last_Max)
  have minf: "min_freq tm = ARDUINO_FREQ / of_int (max_c tm * Max (set ?vs))"
    by (simp add: mf lastmax mult.commute)
  from set_note_cases [OF cfg f intensity_not_too_large [OF vol]]
  show ?thesis
  proof (elim disjE conjE exE)
    assume "?f < min_freq tm" and "set_note tm pitch intensity = Inr tm"
    then show ?thesis
      by (simp add: Let_def minf)
  next
    fix p
    assume nlt: "\<not> ?f < min_freq tm"
      and p: "next_prescale (max_c tm) ?f ?vs = Inr p"
      and r: "set_note tm pitch intensity =
                Inr (tm \<lparr> prescale := p,
                  top_c := py_round (ARDUINO_FREQ / (of_int p * ?f)),
                  current := (if py_round (ARDUINO_FREQ / (of_int p * ?f)) \<le> current tm
                              then 0 else current tm),
                  duty := (if py_round (of_int (min intensity MAX_HALF_CYCLES) * HALF_CYCLE_LENGTH
                                         * ARDUINO_FREQ / of_int p) = 0 then 1
                           else py_round (of_int (min intensity MAX_HALF_CYCLES) * HALF_CYCLE_LENGTH
                                         * ARDUINO_FREQ / of_int p)) \<rparr>)"
    from next_prescale_Inr [OF p] have pS: "p \<in> ?S"
      by simp
    have "\<And>q. q \<in> ?S \<Longrightarrow> p \<le> q"
      using next_prescale_least [OF srt p] by simp
    with pS have Min: "Min ?S = p"
      by (intro Min_eqI) simp_all
    from pS pos have ppos: "0 < p"
      by simp
    have "0 \<le> of_int (min intensity MAX_HALF_CYCLES) * HALF_CYCLE_LENGTH * ARDUINO_FREQ / of_int p"
      using vol ppos by (simp add: consts_defs)
    then have dn: "0 \<le> py_round (of_int (min intensity MAX_HALF_CYCLES) * HALF_CYCLE_LENGTH * ARDUINO_FREQ / of_int p)"
      by (rule py_round_nonneg)
    show ?thesis
      using nlt dn unfolding r Let_def Min minf [symmetric]
      by (auto simp: max_def)
  qed
qed

text \<open>
  The second timer at pitch 81 (880 Hz): prescaler 128, a period of 142 ticks and a
  duty of 2 ticks, the tie 2.5 rounded to the even number. The second timer at pitch
  33 (55 Hz, below its 61 Hz): no change. The first timer at pitch 69.
\<close>

theorem set_note_selects_witness:
  "set_note Timer2 81 10 = Inr (Timer2 \<lparr> prescale := 128, top_c := 142, duty := 2 \<rparr>) \<and>
   set_note Timer2 33 10 = Inr Timer2 \<and>
   set_note Timer1 69 10 = Inr (Timer1 \<lparr> prescale := 1, top_c := 36364, duty := 320 \<rparr>)"
proof -
  have m2: "Min {v \<in> set [1, 8, 32, 64, 128, 256, 1024 :: int].
              (16000000 :: real) / of_int (256 * v) < 880} = 128"
    by (intro Min_eqI) auto
  have m1: "Min {v \<in> set [1, 8, 64, 256, 1024 :: int].
              (16000000 :: real) / of_int (65536 * v) < 440} = 1"
    by (intro Min_eqI) auto
  have "(2::real) powr of_int (- 3) = 1 / 8"
    by (simp only: powr_real_of_int) simp
  then have eighth: "(2::real) powr - 3 = 1 / 8"
    by simp
  have p: "same_config Timer2 Timer1 \<or> same_config Timer2 Timer2"
    "same_config Timer1 Timer1 \<or> same_config Timer1 Timer2"
    by (simp_all add: same_config_def)
  have "set_note Timer2 81 10 = Inr (Timer2 \<lparr> prescale := 128, top_c := 142, duty := 2 \<rparr>)"
    using set_note_selects [where tm = Timer2 and pitch = 81 and intensity = 10] p(1) m2
    by (simp add: Timer2_eq consts_defs py_round_def Let_def)
  moreover have "set_note Timer2 33 10 = Inr Timer2"
    using set_note_selects [where tm = Timer2 and pitch = 33 and intensity = 10] p(1) eighth
    by (simp add: Timer2_eq consts_defs Let_def)
  moreover have "set_note Timer1 69 10 = Inr (Timer1 \<lparr> prescale := 1, top_c := 36364, duty := 320 \<rparr>)"
    using set_note_selects [where tm = Timer1 and pitch = 69 and intensity = 10] p(2) m1
    by (simp add: Timer1_eq consts_defs py_round_def Let_def)
  ultimately show ?thesis
    by simp
qed

text \<open>
  Pitch 12357 is the first for which \<open>(pitch - 69) / 12\<close> reaches 1024; pitch 12356
  still has a frequency.
\<close>

theorem pitch_overflow_counterexample:
  "set_note Timer1 12357 10 = Inl OverflowError \<and>
   get_midi_freq 12357 = Inl OverflowError \<and>
   get_midi_freq 12356 = Inr (440 * 2 powr (12287 / 12))"
  by (simp add: set_note_def get_midi_freq_def int_too_large_def consts_defs Let_def)

section \<open>The invariants of a timer\<close>

lemma midi_freq_le:
  fixes n :: int
  assumes "n \<le> 127"
  shows "440 * 2 powr (of_int (n - 69) / 12) \<le> (14080 :: real)"
proof -
  have "(of_int (n - 69) :: real) / 12 \<le> 5"
    using assms by simp
  then have "(2::real) powr (of_int (n - 69) / 12) \<le> 2 powr 5"
    by (simp only: powr_le_cancel_iff) 
  then show ?thesis
    by simp
qed

text \<open>
  For every candidate prescaler and every frequency up to 14080 Hz (pitch 127 is
  below it) there is a whole number of ticks between the widest duty and the period.
\<close>

lemma duty_below_period:
  assumes p: "p \<in> {1, 8, 32, 64, 128, 256, 1024 :: int}" and f: "0 < f" "f \<le> 14080"
  shows "\<exists>m::int. 1 \<le> m \<and>
           of_int (min v MAX_HALF_CYCLES) * HALF_CYCLE_LENGTH * ARDUINO_FREQ / of_int p \<le> of_int m \<and>
           of_int m \<le> ARDUINO_FREQ / (of_int p * f)"
proof -
  have w: "of_int (min v MAX_HALF_CYCLES) * HALF_CYCLE_LENGTH * ARDUINO_FREQ \<le> 320"
  proof -
    have "(of_int (min v 10) :: real) \<le> 10"
      by (simp only: of_int_le_numeral_iff min.cobounded2)
    then show ?thesis
      by (simp add: consts_defs)
  qed
  define m where "m = (319 + p) div p"
  have m: "1 \<le> m" "(320::real) \<le> of_int m * of_int p"
    "of_int m * of_int p * (14080::real) \<le> 16000000"
    using p by (auto simp: m_def)
  have ppos: "(0::real) < of_int p" using p by auto
  have "of_int (min v MAX_HALF_CYCLES) * HALF_CYCLE_LENGTH * ARDUINO_FREQ / of_int p \<le> of_int m"
    using w m(2) ppos by (simp add: field_simps)
  moreover have "of_int m * (of_int p * f) \<le> of_int m * of_int p * (14080::real)"
    using m(1) ppos f by (simp add: mult_left_mono)
  then have "of_int m \<le> ARDUINO_FREQ / (of_int p * f)"
    using m(3) ppos f by (simp add: field_simps ARDUINO_FREQ_def)
  ultimately show ?thesis
    using m(1) by blast
qed

lemma set_note_keeps_inv:
  assumes prof: "same_config tm Timer1 \<or> same_config tm Timer2" and inv: "timer_inv tm"
    and top: "top_c tm \<le> max_c tm"
    and pitch: "0 \<le> pitch" "pitch \<le> 127" and vol: "0 \<le> intensity"
  shows "\<exists>tm'. set_note tm pitch intensity = Inr tm' \<and> timer_inv tm' \<and>
               top_c tm' \<le> max_c tm'"
proof -
  let ?f = "440 * 2 powr (of_int (pitch - 69) / 12) :: real"
  have f: "get_midi_freq pitch = Inr ?f"
    using pitch by (intro get_midi_freq_in_range) simp_all
  have fpos: "0 < ?f"
    by simp
  from set_note_cases [OF profile_config_ok [OF prof] f intensity_not_too_large [OF vol]]
  show ?thesis
  proof (elim disjE exE conjE)
    assume "set_note tm pitch intensity = Inr tm"
    with inv top show ?thesis by simp
  next
    fix p
    let ?tp = "py_round (ARDUINO_FREQ / (of_int p * ?f))"
    let ?d = "py_round (of_int (min intensity MAX_HALF_CYCLES) * HALF_CYCLE_LENGTH
                                         * ARDUINO_FREQ / of_int p)"
    assume p: "next_prescale (max_c tm) ?f (prescale_values tm) = Inr p"
      and r: "set_note tm pitch intensity =
                Inr (tm \<lparr> prescale := p, top_c := ?tp,
                  current := (if ?tp \<le> current tm then 0 else current tm),
                  duty := (if ?d = 0 then 1 else ?d) \<rparr>)"
    from next_prescale_Inr [OF p] have mem: "p \<in> set (prescale_values tm)"
      and slow: "ARDUINO_FREQ / of_int (max_c tm * p) < ?f"
      by simp_all
    from mem profile_candidates [OF prof] have cand: "p \<in> {1, 8, 32, 64, 128, 256, 1024}"
      by blast
    then have ppos: "(0::real) < of_int p"
      by auto
    have mpos: "(0::real) < of_int (max_c tm)"
      using prof by (auto simp: same_config_def Timer1_eq Timer2_eq)
    from duty_below_period [OF cand fpos midi_freq_le [OF pitch(2)], of intensity]
    obtain m :: int where m: "1 \<le> m"
      "of_int (min intensity MAX_HALF_CYCLES) * HALF_CYCLE_LENGTH * ARDUINO_FREQ / of_int p \<le> of_int m"
      "of_int m \<le> ARDUINO_FREQ / (of_int p * ?f)"
      by blast
    have d: "?d \<le> m" using m(2) by (rule py_round_le_int)
    have tp: "m \<le> ?tp" using m(3) by (rule py_round_ge_int)
    have "ARDUINO_FREQ < ?f * (of_int (max_c tm) * of_int p)"
      using slow ppos mpos by (simp add: field_simps)
    then have "ARDUINO_FREQ / (of_int p * ?f) \<le> of_int (max_c tm)"
      using ppos fpos by (simp add: field_simps)
    then have le: "?tp \<le> max_c tm"
      by (rule py_round_le_int)
    have "timer_inv (tm \<lparr> prescale := p, top_c := ?tp,
                  current := (if ?tp \<le> current tm then 0 else current tm),
                  duty := (if ?d = 0 then 1 else ?d) \<rparr>)"
      using d tp m(1) mem inv by (auto simp: timer_inv_def)
    with r le show ?thesis by simp
  qed
qed

lemma update_keeps_inv:
  assumes prof: "same_config tm Timer1 \<or> same_config tm Timer2" and inv: "timer_inv tm"
    and t: "current_t tm \<le> t"
  shows "\<exists>tm'. update tm t = Inr tm' \<and> timer_inv tm' \<and> top_c tm' = top_c tm \<and>
               max_c tm' = max_c tm"
proof -
  from inv profile_candidates [OF prof] have ppos: "0 < prescale tm"
    by (auto simp: timer_inv_def)
  from inv have tpos: "0 < top_c tm" and cur: "0 \<le> current tm"
    by (simp_all add: timer_inv_def)
  let ?ticks = "py_round ((t - current_t tm) * ARDUINO_FREQ / of_int (prescale tm))"
  have "0 \<le> (t - current_t tm) * ARDUINO_FREQ / of_int (prescale tm)"
    using t ppos by (simp add: ARDUINO_FREQ_def)
  then have "0 \<le> ?ticks"
    by (rule py_round_nonneg)
  with cur have c: "0 \<le> current tm + ?ticks"
    by simp
  have rem: "(current tm + ?ticks) - top_c tm * py_int (of_int (current tm + ?ticks) / of_int (top_c tm))
      = (current tm + ?ticks) mod top_c tm"
    using tpos c by (rule py_int_rem_nonneg)
  have "update tm t = Inr (tm \<lparr> current := (current tm + ?ticks) mod top_c tm, current_t := t \<rparr>)"
    using ppos tpos unfolding update_def Let_def rem by simp
  moreover have "timer_inv (tm \<lparr> current := (current tm + ?ticks) mod top_c tm, current_t := t \<rparr>)"
    using inv tpos by (simp add: timer_inv_def)
  ultimately show ?thesis by simp
qed

text \<open>
  C5. The claim: every timer operation keeps \<open>0 \<le> counter < top\<close>,
  \<open>duty \<le> top\<close> and the prescaler among the candidates. A pitch far above the MIDI
  range gives a period shorter than the duty. What holds, for a timer with the
  configuration of one of the two timers of the program whose \<open>top\<close> is at most its
  \<open>max\<close> (as \<^verbatim>\<open>__init__\<close> and \<^verbatim>\<open>set_note\<close> leave it): \<^verbatim>\<open>set_note\<close> with a pitch
  from 0 to 127 and a non-negative intensity, \<^verbatim>\<open>set_off\<close>, and \<^verbatim>\<open>update\<close> to a
  time not before \<open>current_t\<close> and at most \<open>2^52\<close> ticks after it return and keep
  the invariants, and keep \<open>top\<close> at most \<open>max\<close>.
\<close>

theorem timer_inv_preserved:
  assumes "same_config tm Timer1 \<or> same_config tm Timer2" and "timer_inv tm"
    and "top_c tm \<le> max_c tm"
  shows "(0 \<le> pitch \<and> pitch \<le> 127 \<and> 0 \<le> intensity \<longrightarrow>
            (\<exists>tm'. set_note tm pitch intensity = Inr tm' \<and> timer_inv tm' \<and>
                    top_c tm' \<le> max_c tm')) \<and>
         timer_inv (set_off tm) \<and> top_c (set_off tm) \<le> max_c (set_off tm) \<and>
         (current_t tm \<le> t \<and>
          (t - current_t tm) * ARDUINO_FREQ / of_int (prescale tm) \<le> 2 ^ 52 \<longrightarrow>
            (\<exists>tm'. update tm t = Inr tm' \<and> timer_inv tm' \<and> top_c tm' \<le> max_c tm'))"
proof -
  have "timer_inv (set_off tm)" "top_c (set_off tm) \<le> max_c (set_off tm)"
    using assms(2,3) by (simp_all add: timer_inv_def set_off_def)
  moreover have "\<exists>tm'. update tm t = Inr tm' \<and> timer_inv tm' \<and> top_c tm' \<le> max_c tm'"
    if "current_t tm \<le> t"
    using update_keeps_inv [OF assms(1,2) that] assms(3) by auto
  ultimately show ?thesis
    using set_note_keeps_inv [OF assms] by blast
qed

theorem timer_inv_preserved_witness:
  "(\<exists>tm'. set_note Timer1 69 10 = Inr tm' \<and> timer_inv tm' \<and> top_c tm' \<le> max_c tm') \<and>
   timer_inv (set_off Timer1) \<and> top_c (set_off Timer1) \<le> max_c (set_off Timer1) \<and>
   (\<exists>tm'. update Timer1 1 = Inr tm' \<and> timer_inv tm' \<and> top_c tm' \<le> max_c tm')"
proof -
  have "same_config Timer1 Timer1 \<or> same_config Timer1 Timer2"
    by (simp add: same_config_def)
  moreover have "timer_inv Timer1"
    by (simp add: timer_inv_def Timer1_eq)
  moreover have "top_c Timer1 \<le> max_c Timer1"
    by (simp add: Timer1_eq)
  ultimately show ?thesis
    using timer_inv_preserved [where tm = Timer1 and pitch = 69 and intensity = 10 and t = 1]
    by (simp add: Timer1_eq ARDUINO_FREQ_def)
qed

text \<open>
  Pitch 153 (seven octaves above pitch 69, 56320 Hz) at intensity 10 on the first
  timer: a period of 284 ticks and a duty of 320.
\<close>

theorem duty_above_period_counterexample:
  "timer_inv Timer1 \<and>
   set_note Timer1 153 10 = Inr (Timer1 \<lparr> top_c := 284, duty := 320 \<rparr>) \<and>
   \<not> timer_inv (Timer1 \<lparr> top_c := 284, duty := 320 \<rparr>)"
  by (simp add: timer_inv_def Timer1_eq set_note_def get_midi_freq_def int_too_large_def
      consts_defs py_round_def Let_def)


end
